theory Spec2Isabelle
  imports Main "HOL-Library.Sublist"
begin

section \<open>Platform values: strings, numbers and the client storage\<close>

text \<open>
  The script under verification is \<^verbatim>\<open>src/js/script.js\<close>.  JavaScript strings are
  modelled as \<^typ>\<open>string\<close> (lists of 8-bit code units, code points up to U+00FF), the value
  \<^verbatim>\<open>null\<close> of \<^verbatim>\<open>localStorage.getItem\<close> and \<^verbatim>\<open>URLSearchParams.get\<close> as \<^term>\<open>None\<close>.
  A JavaScript number is either \<^verbatim>\<open>NaN\<close> or an integer; the model is exact while
  magnitudes stay below \<open>2^53\<close>, where double arithmetic on integers is exact.
\<close>

datatype jsnum = NaN | Num int

definition isWhiteSpace :: "char \<Rightarrow> bool" where
  "isWhiteSpace c = (of_char c \<in> {9, 10, 11, 12, 13, 32, 160 :: nat})"

definition isDigit :: "char \<Rightarrow> bool" where
  "isDigit c = (48 \<le> (of_char c :: nat) \<and> (of_char c :: nat) \<le> 57)"

definition isHexDigit :: "char \<Rightarrow> bool" where
  "isHexDigit c = (isDigit c \<or> (65 \<le> (of_char c :: nat) \<and> (of_char c :: nat) \<le> 70)
     \<or> (97 \<le> (of_char c :: nat) \<and> (of_char c :: nat) \<le> 102))"

definition hexVal :: "char \<Rightarrow> nat" where
  "hexVal c = (let n = of_char c in
     if n \<le> 57 then n - 48 else if n \<le> 70 then n - 55 else n - 87)"

definition digitChar :: "nat \<Rightarrow> char" where
  "digitChar d = char_of (48 + d)"

fun natDigits :: "nat \<Rightarrow> string" where
  "natDigits n = (if n < 10 then [digitChar n] else natDigits (n div 10) @ [digitChar (n mod 10)])"

declare natDigits.simps [simp del]

text \<open>\<^verbatim>\<open>Number.prototype.toString()\<close> on an integer or \<^verbatim>\<open>NaN\<close>.\<close>

definition toString :: "jsnum \<Rightarrow> string" where
  "toString x = (case x of NaN \<Rightarrow> ''NaN''
     | Num i \<Rightarrow> if i < 0 then CHR ''-'' # natDigits (nat (- i)) else natDigits (nat i))"

text \<open>
  \<^verbatim>\<open>parseInt(string)\<close> without a radix (ECMA-262): leading white space is skipped, one
  sign is read, a \<^verbatim>\<open>0x\<close>/\<^verbatim>\<open>0X\<close> prefix selects radix 16, the longest run of digits is
  read, and an empty run gives \<^verbatim>\<open>NaN\<close>.
\<close>

definition parseInt :: "string \<Rightarrow> jsnum" where
  "parseInt str =
    (let s = dropWhile isWhiteSpace str;
         neg = (take 1 s = ''-'');
         s1 = (if take 1 s = ''-'' \<or> take 1 s = ''+'' then drop 1 s else s);
         hex = (take 2 s1 = ''0x'' \<or> take 2 s1 = ''0X'');
         s2 = (if hex then drop 2 s1 else s1);
         z = takeWhile (if hex then isHexDigit else isDigit) s2;
         m = foldl (\<lambda>a c. (if hex then 16 else 10) * a + hexVal c) 0 z
     in if z = [] then NaN else Num (if neg then - int m else int m))"

text \<open>\<^verbatim>\<open>count++\<close>, \<^verbatim>\<open>a - b\<close>, \<^verbatim>\<open>a >= b\<close> and \<^verbatim>\<open>a > b\<close> on numbers: \<^verbatim>\<open>NaN\<close> is absorbing
  and compares false.\<close>

definition increment :: "jsnum \<Rightarrow> jsnum" where
  "increment x = (case x of NaN \<Rightarrow> NaN | Num i \<Rightarrow> Num (i + 1))"

definition minus_js :: "jsnum \<Rightarrow> jsnum \<Rightarrow> jsnum" where
  "minus_js x y = (case (x, y) of (Num a, Num b) \<Rightarrow> Num (a - b) | _ \<Rightarrow> NaN)"

definition ge_js :: "jsnum \<Rightarrow> int \<Rightarrow> bool" where
  "ge_js x k = (case x of NaN \<Rightarrow> False | Num i \<Rightarrow> k \<le> i)"

definition gt_js :: "jsnum \<Rightarrow> int \<Rightarrow> bool" where
  "gt_js x k = (case x of NaN \<Rightarrow> False | Num i \<Rightarrow> k < i)"

text \<open>Truthiness of a string-or-null value: \<^verbatim>\<open>null\<close> and the empty string are falsy.\<close>

definition truthy :: "string option \<Rightarrow> bool" where
  "truthy v = (case v of None \<Rightarrow> False | Some s \<Rightarrow> s \<noteq> [])"

text \<open>\<^verbatim>\<open>a || b\<close> where \<open>b\<close> is a string.\<close>

definition or_else :: "string option \<Rightarrow> string \<Rightarrow> string" where
  "or_else v d = (case v of None \<Rightarrow> d | Some s \<Rightarrow> if s = [] then d else s)"

text \<open>\<^verbatim>\<open>localStorage\<close>: a map from keys to strings.  Writes are taken to succeed (no
  quota error is modelled).\<close>

type_synonym storage = "string \<Rightarrow> string option"

definition getItem :: "storage \<Rightarrow> string \<Rightarrow> string option" where
  "getItem st k = st k"

definition setItem :: "storage \<Rightarrow> string \<Rightarrow> string \<Rightarrow> storage" where
  "setItem st k v = st(k \<mapsto> v)"

definition removeItem :: "storage \<Rightarrow> string \<Rightarrow> storage" where
  "removeItem st k = st(k := None)"

section \<open>Usage throttle\<close>

text \<open>\<^verbatim>\<open>isLoggedIn\<close> (script.js 26-28): \<^verbatim>\<open>!!localStorage.getItem('user')\<close>.\<close>

definition isLoggedIn :: "storage \<Rightarrow> bool" where
  "isLoggedIn st = truthy (getItem st ''user'')"

text \<open>
  \<^verbatim>\<open>showLoginPrompt\<close> (script.js 72-112).  \<open>now\<close> is the reading of
  \<^verbatim>\<open>new Date().getTime()\<close> in milliseconds.  The result says whether the prompt element was
  created (the page is taken to hold the \<^verbatim>\<open>main\<close> element the prompt is put into).
\<close>

definition showLoginPrompt :: "int \<Rightarrow> storage \<Rightarrow> bool \<times> storage" where
  "showLoginPrompt now st =
    (let lastPromptTime = getItem st ''lastLoginPromptTime'' in
     if \<not> truthy lastPromptTime
        \<or> gt_js (minus_js (Num now) (parseInt (or_else lastPromptTime []))) 3600000
     then (True, setItem st ''lastLoginPromptTime'' (toString (Num now)))
     else (False, st))"

text \<open>\<^verbatim>\<open>incrementUsageCount\<close> (script.js 58-69); the result is the prompt decision.\<close>

definition incrementUsageCount :: "int \<Rightarrow> storage \<Rightarrow> bool \<times> storage" where
  "incrementUsageCount now st =
    (if isLoggedIn st then (False, st)
     else let count = increment (parseInt (or_else (getItem st ''usageCount'') ''0''));
              st' = setItem st ''usageCount'' (toString count)
          in if ge_js count 15 then showLoginPrompt now st' else (False, st'))"

text \<open>A run of gated actions at the given clock readings: the decisions in order and the
  final storage.\<close>

fun recordUses :: "int list \<Rightarrow> storage \<Rightarrow> bool list \<times> storage" where
  "recordUses [] st = ([], st)"
| "recordUses (t # ts) st =
    (let (d, st') = incrementUsageCount t st; (ds, st'') = recordUses ts st'
     in (d # ds, st''))"

section \<open>JSON text\<close>

text \<open>
  \<^verbatim>\<open>JSON.stringify\<close> and \<^verbatim>\<open>JSON.parse\<close> are the platform's; they are modelled after
  ECMA-404 / ECMA-262.  A number keeps its literal text (it is not evaluated), an object is
  the list of its members in textual order, a repeated key keeping its first place and
  its last value (the special place of integer-like keys in the enumeration order is left
  out).  With 8-bit code units a \<^verbatim>\<open>\u\<close> escape is read modulo 256.
\<close>

datatype json = JNull | JBool bool | JNum string | JStr string
  | JArr "json list" | JObj "(string \<times> json) list"

abbreviation dquote :: char where
  "dquote \<equiv> CHR 0x22"

abbreviation backslash :: char where
  "backslash \<equiv> CHR 0x5C"

definition hexDigitChar :: "nat \<Rightarrow> char" where
  "hexDigitChar d = (if d < 10 then char_of (48 + d) else char_of (87 + d))"

text \<open>\<^verbatim>\<open>QuoteJSONString\<close>: the two-character escapes, \<^verbatim>\<open>\u00XX\<close> for the other control
  characters, every other code unit as it is.\<close>

definition escapeChar :: "char \<Rightarrow> string" where
  "escapeChar c =
    (if c = dquote then [backslash, dquote]
     else if c = backslash then [backslash, backslash]
     else if c = CHR 0x08 then [backslash, CHR ''b'']
     else if c = CHR 0x0C then [backslash, CHR ''f'']
     else if c = CHR 0x0A then [backslash, CHR ''n'']
     else if c = CHR 0x0D then [backslash, CHR ''r'']
     else if c = CHR 0x09 then [backslash, CHR ''t'']
     else if (of_char c :: nat) < 32
       then [backslash, CHR ''u'', CHR ''0'', CHR ''0'',
             hexDigitChar (of_char c div 16), hexDigitChar (of_char c mod 16)]
     else [c])"

definition quoteJSON :: "string \<Rightarrow> string" where
  "quoteJSON s = dquote # concat (map escapeChar s) @ [dquote]"

fun commaSep :: "string list \<Rightarrow> string" where
  "commaSep [] = []"
| "commaSep [x] = x"
| "commaSep (x # y # ys) = x @ '','' @ commaSep (y # ys)"

fun JSON_stringify :: "json \<Rightarrow> string" where
  "JSON_stringify JNull = ''null''"
| "JSON_stringify (JBool b) = (if b then ''true'' else ''false'')"
| "JSON_stringify (JNum l) = l"
| "JSON_stringify (JStr s) = quoteJSON s"
| "JSON_stringify (JArr vs) = ''['' @ commaSep (map JSON_stringify vs) @ '']''"
| "JSON_stringify (JObj ms) =
     ''{'' @ commaSep (map (\<lambda>m. quoteJSON (fst m) @ '':'' @ JSON_stringify (snd m)) ms) @ ''}''"

definition isJsonWs :: "char \<Rightarrow> bool" where
  "isJsonWs c = (of_char c \<in> {9, 10, 13, 32 :: nat})"

definition skipWs :: "string \<Rightarrow> string" where
  "skipWs s = dropWhile isJsonWs s"

definition unescape :: "char \<Rightarrow> char option" where
  "unescape e =
    (if e = dquote then Some dquote
     else if e = backslash then Some backslash
     else if e = CHR ''/'' then Some CHR ''/''
     else if e = CHR ''b'' then Some (CHR 0x08)
     else if e = CHR ''f'' then Some (CHR 0x0C)
     else if e = CHR ''n'' then Some (CHR 0x0A)
     else if e = CHR ''r'' then Some (CHR 0x0D)
     else if e = CHR ''t'' then Some (CHR 0x09)
     else None)"

definition consTo :: "char \<Rightarrow> (string \<times> string) option \<Rightarrow> (string \<times> string) option" where
  "consTo c r = (case r of None \<Rightarrow> None | Some (t, rest) \<Rightarrow> Some (c # t, rest))"

text \<open>The characters of a string literal after its opening quote, up to the closing
  quote: the text read and what follows the literal.\<close>

fun parseStringBody :: "string \<Rightarrow> (string \<times> string) option" where
  "parseStringBody [] = None"
| "parseStringBody (c # cs) =
    (if c = dquote then Some ([], cs)
     else if c = backslash then
       (case cs of
          [] \<Rightarrow> None
        | e # r \<Rightarrow>
            if e = CHR ''u'' then
              (if 4 \<le> length r \<and> list_all isHexDigit (take 4 r)
               then consTo (char_of (foldl (\<lambda>a h. 16 * a + hexVal h) 0 (take 4 r)))
                      (parseStringBody (drop 4 r))
               else None)
            else (case unescape e of
                    None \<Rightarrow> None
                  | Some ch \<Rightarrow> consTo ch (parseStringBody r)))
     else if (of_char c :: nat) < 32 then None
     else consTo c (parseStringBody cs))"

text \<open>A number literal: \<^verbatim>\<open>-? (0 | [1-9][0-9]*) (. [0-9]+)? ([eE] [+-]? [0-9]+)?\<close>.\<close>

definition parseNumber :: "string \<Rightarrow> (string \<times> string) option" where
  "parseNumber s =
    (let sign = (if take 1 s = ''-'' then ''-'' else []);
         s1 = drop (length sign) s;
         ip = takeWhile isDigit s1;
         s2 = dropWhile isDigit s1;
         hasFrac = (take 1 s2 = ''.'');
         fp = (if hasFrac then takeWhile isDigit (drop 1 s2) else []);
         s3 = (if hasFrac then dropWhile isDigit (drop 1 s2) else s2);
         hasExp = (take 1 s3 = ''e'' \<or> take 1 s3 = ''E'');
         s4 = drop 1 s3;
         esign = (if take 1 s4 = ''-'' \<or> take 1 s4 = ''+'' then take 1 s4 else []);
         s5 = drop (length esign) s4;
         ep = (if hasExp then takeWhile isDigit s5 else []);
         s6 = (if hasExp then dropWhile isDigit s5 else s3)
     in if ip = [] \<or> (1 < length ip \<and> take 1 ip = ''0'') \<or> (hasFrac \<and> fp = [])
           \<or> (hasExp \<and> ep = [])
        then None
        else Some (sign @ ip @ (if hasFrac then ''.'' @ fp else [])
                     @ (if hasExp then take 1 s3 @ esign @ ep else []), s6))"

definition putMember :: "string \<Rightarrow> json \<Rightarrow> (string \<times> json) list \<Rightarrow> (string \<times> json) list" where
  "putMember k v ms =
    (case map_of ms k of
       None \<Rightarrow> (k, v) # ms
     | Some v' \<Rightarrow> (k, v') # filter (\<lambda>m. fst m \<noteq> k) ms)"

text \<open>
  The recursive descent over values, array elements and object members.  The first
  argument bounds the number of nested and successive calls; every call is paid for by a
  character of the text, so \<^verbatim>\<open>JSON_parse\<close> starts it with one more than the length of
  the text.
\<close>

fun parseValue :: "nat \<Rightarrow> string \<Rightarrow> (json \<times> string) option"
  and parseElements :: "nat \<Rightarrow> string \<Rightarrow> (json list \<times> string) option"
  and parseMembers :: "nat \<Rightarrow> string \<Rightarrow> ((string \<times> json) list \<times> string) option"
where
  "parseValue 0 s = None"
| "parseValue (Suc n) s =
    (if prefix ''null'' s then Some (JNull, drop 4 s)
     else if prefix ''true'' s then Some (JBool True, drop 4 s)
     else if prefix ''false'' s then Some (JBool False, drop 5 s)
     else if prefix [dquote] s then
       (case parseStringBody (drop 1 s) of
          None \<Rightarrow> None
        | Some (t, r) \<Rightarrow> Some (JStr t, r))
     else if prefix ''['' s then
       (if prefix '']'' (skipWs (drop 1 s)) then Some (JArr [], drop 1 (skipWs (drop 1 s)))
        else (case parseElements n (skipWs (drop 1 s)) of
                None \<Rightarrow> None
              | Some (vs, r) \<Rightarrow> Some (JArr vs, r)))
     else if prefix ''{'' s then
       (if prefix ''}'' (skipWs (drop 1 s)) then Some (JObj [], drop 1 (skipWs (drop 1 s)))
        else (case parseMembers n (skipWs (drop 1 s)) of
                None \<Rightarrow> None
              | Some (ms, r) \<Rightarrow> Some (JObj ms, r)))
     else (case parseNumber s of
             None \<Rightarrow> None
           | Some (l, r) \<Rightarrow> Some (JNum l, r)))"
| "parseElements 0 s = None"
| "parseElements (Suc n) s =
    (case parseValue n s of
       None \<Rightarrow> None
     | Some (v, r) \<Rightarrow>
         if prefix '','' (skipWs r) then
           (case parseElements n (skipWs (drop 1 (skipWs r))) of
              None \<Rightarrow> None
            | Some (vs, r') \<Rightarrow> Some (v # vs, r'))
         else if prefix '']'' (skipWs r) then Some ([v], drop 1 (skipWs r))
         else None)"
| "parseMembers 0 s = None"
| "parseMembers (Suc n) s =
    (if prefix [dquote] s then
       (case parseStringBody (drop 1 s) of
          None \<Rightarrow> None
        | Some (k, r) \<Rightarrow>
            if prefix '':'' (skipWs r) then
              (case parseValue n (skipWs (drop 1 (skipWs r))) of
                 None \<Rightarrow> None
               | Some (v, r') \<Rightarrow>
                   if prefix '','' (skipWs r') then
                     (case parseMembers n (skipWs (drop 1 (skipWs r'))) of
                        None \<Rightarrow> None
                      | Some (ms, r'') \<Rightarrow> Some (putMember k v ms, r''))
                   else if prefix ''}'' (skipWs r') then Some ([(k, v)], drop 1 (skipWs r'))
                   else None)
            else None)
     else None)"

definition JSON_parse :: "string \<Rightarrow> json option" where
  "JSON_parse s =
    (case parseValue (Suc (length s)) (skipWs s) of
       None \<Rightarrow> None
     | Some (v, r) \<Rightarrow> if skipWs r = [] then Some v else None)"

text \<open>The text of one object member, and the values a Session object holds (strings and
  \<^verbatim>\<open>null\<close>).\<close>

definition memberText :: "string \<times> json \<Rightarrow> string" where
  "memberText m = quoteJSON (fst m) @ '':'' @ JSON_stringify (snd m)"

fun simpleValue :: "json \<Rightarrow> bool" where
  "simpleValue JNull = True"
| "simpleValue (JStr s) = True"
| "simpleValue v = False"

section \<open>Identity session store\<close>

text \<open>
  The Session object, as the object literal of both sign-in paths writes it
  (script.js 446-453 and 1139-1146): six properties in this order, \<^verbatim>\<open>picture\<close> being
  \<^verbatim>\<open>null\<close> when the redirect carried none and the exchange path is taken.
\<close>

definition userData ::
  "string \<Rightarrow> string \<Rightarrow> string \<Rightarrow> string \<Rightarrow> string option \<Rightarrow> string \<Rightarrow> json" where
  "userData userId username token googleId picture email = JObj
    [(''userId'', JStr userId), (''username'', JStr username),
     (''token'', JStr token), (''googleId'', JStr googleId),
     (''picture'', (case picture of None \<Rightarrow> JNull | Some p \<Rightarrow> JStr p)),
     (''email'', JStr email)]"

text \<open>\<^verbatim>\<open>login\<close> (script.js 3-19): store the serialised object, drop the usage counter.\<close>

definition login :: "json \<Rightarrow> storage \<Rightarrow> storage" where
  "login user st = removeItem (setItem st ''user'' (JSON_stringify user)) ''usageCount''"

text \<open>\<^verbatim>\<open>logout\<close> (script.js 21-24), without the interface update.\<close>

definition logout :: "storage \<Rightarrow> storage" where
  "logout st = removeItem st ''user''"

text \<open>
  \<^verbatim>\<open>getCurrentUser\<close> (script.js 30-50).  \<^term>\<open>None\<close> is the result \<^verbatim>\<open>null\<close>: no record, an
  empty record, a record that \<^verbatim>\<open>JSON.parse\<close> rejects (the \<^verbatim>\<open>catch\<close> branch, which removes
  the record), or a record holding the JSON text \<^verbatim>\<open>null\<close>.
\<close>

definition getCurrentUser :: "storage \<Rightarrow> json option \<times> storage" where
  "getCurrentUser st =
    (let userString = getItem st ''user'' in
     if \<not> truthy userString then (None, st)
     else (case JSON_parse (or_else userString []) of
             None \<Rightarrow> (None, removeItem st ''user'')
           | Some user \<Rightarrow> (if user = JNull then None else Some user, st)))"

section \<open>Redirect parameter extractor\<close>

subsection \<open>String operations of the platform\<close>

text \<open>\<^verbatim>\<open>s.includes(p)\<close> and \<^verbatim>\<open>s.indexOf(p)\<close> (\<^term>\<open>None\<close> for \<open>-1\<close>).\<close>

fun str_includes :: "string \<Rightarrow> string \<Rightarrow> bool" where
  "str_includes [] p = (p = [])"
| "str_includes (c # cs) p = (prefix p (c # cs) \<or> str_includes cs p)"

fun indexOf :: "string \<Rightarrow> string \<Rightarrow> nat option" where
  "indexOf [] p = (if p = [] then Some 0 else None)"
| "indexOf (c # cs) p =
     (if prefix p (c # cs) then Some 0 else map_option Suc (indexOf cs p))"

text \<open>\<^verbatim>\<open>s.indexOf(p, start)\<close> for \<open>start\<close> within the string.\<close>

definition indexOfFrom :: "string \<Rightarrow> string \<Rightarrow> nat \<Rightarrow> nat option" where
  "indexOfFrom s p start = map_option (\<lambda>i. i + start) (indexOf (drop start s) p)"

text \<open>\<^verbatim>\<open>s.substring(a, b)\<close>: both indices are clamped to the length and swapped when
  \<open>a > b\<close>.\<close>

definition substring :: "string \<Rightarrow> nat \<Rightarrow> nat \<Rightarrow> string" where
  "substring s a b =
    (let a' = min a (length s); b' = min b (length s)
     in take (max a' b' - min a' b') (drop (min a' b') s))"

text \<open>\<^verbatim>\<open>s.split(sep)\<close>: the pieces between the occurrences of \<open>sep\<close>, found from the left
  without overlap; an empty separator splits into code units.\<close>

function splitOn :: "string \<Rightarrow> string \<Rightarrow> string list" where
  "splitOn sep s =
    (if sep = [] then map (\<lambda>c. [c]) s
     else if s = [] then [[]]
     else if prefix sep s then [] # splitOn sep (drop (length sep) s)
     else (case splitOn sep (tl s) of
             [] \<Rightarrow> [[hd s]]
           | seg # segs \<Rightarrow> (hd s # seg) # segs))"
  by pat_completeness auto
termination
  by (relation "measure (\<lambda>(sep, s). length s)") auto

declare splitOn.simps [simp del]

text \<open>\<^verbatim>\<open>array[i]\<close>: \<^term>\<open>None\<close> is \<^verbatim>\<open>undefined\<close>.\<close>

fun element :: "'a list \<Rightarrow> nat \<Rightarrow> 'a option" where
  "element [] i = None"
| "element (x # xs) 0 = Some x"
| "element (x # xs) (Suc i) = element xs i"

subsection \<open>The location and its query parameters\<close>

text \<open>
  \<^verbatim>\<open>window.location.search\<close> for the location whose \<^verbatim>\<open>href\<close> is given (URL standard):
  the part from the first \<^verbatim>\<open>?\<close> up to the fragment, which starts at the first \<^verbatim>\<open>#\<close>; the
  empty string when the query is missing or empty.
\<close>

definition location_search :: "string \<Rightarrow> string" where
  "location_search href =
    (let q = dropWhile (\<lambda>c. c \<noteq> CHR ''?'') (takeWhile (\<lambda>c. c \<noteq> CHR ''#'') href)
     in if length q \<le> 1 then [] else q)"

text \<open>
  The form-urlencoded parser of \<^verbatim>\<open>URLSearchParams\<close> (URL standard) works on the UTF-8 bytes
  of its input: a code unit from 128 on is two bytes.  Percent-decoding turns \<^verbatim>\<open>%\<close> and two
  hexadecimal digits into one byte and leaves anything else as it is.  The decoded bytes
  are read as UTF-8 again: a two-byte sequence for a code point up to U+00FF is one code
  unit.  (A code point above U+00FF and a malformed sequence, which the platform replaces
  by U+FFFD, have no 8-bit code unit; their bytes are kept.)
\<close>

definition utf8Encode :: "string \<Rightarrow> string" where
  "utf8Encode s =
    concat (map (\<lambda>c. if (of_char c :: nat) < 128 then [c]
                      else [char_of (192 + (of_char c :: nat) div 64),
                            char_of (128 + (of_char c :: nat) mod 64)]) s)"

fun utf8Decode :: "string \<Rightarrow> string" where
  "utf8Decode [] = []"
| "utf8Decode [c] = [c]"
| "utf8Decode (c # d # cs) =
    (if ((of_char c :: nat) = 194 \<or> (of_char c :: nat) = 195)
        \<and> 128 \<le> (of_char d :: nat) \<and> (of_char d :: nat) \<le> 191
     then char_of (((of_char c :: nat) - 192) * 64 + ((of_char d :: nat) - 128)) # utf8Decode cs
     else c # utf8Decode (d # cs))"

fun percentDecode :: "string \<Rightarrow> string" where
  "percentDecode [] = []"
| "percentDecode [c] = [c]"
| "percentDecode [c, d] = [c, d]"
| "percentDecode (c # h # l # cs) =
    (if c = CHR ''%'' \<and> isHexDigit h \<and> isHexDigit l
     then char_of (16 * hexVal h + hexVal l) # percentDecode cs
     else c # percentDecode (h # l # cs))"

definition plusToSpace :: "string \<Rightarrow> string" where
  "plusToSpace s = map (\<lambda>c. if c = CHR ''+'' then CHR '' '' else c) s"

definition parsePair :: "string \<Rightarrow> string \<times> string" where
  "parsePair p =
    (utf8Decode (percentDecode (plusToSpace (takeWhile (\<lambda>c. c \<noteq> CHR ''='') p))),
     utf8Decode (percentDecode (plusToSpace (drop 1 (dropWhile (\<lambda>c. c \<noteq> CHR ''='') p)))))"

text \<open>\<^verbatim>\<open>new URLSearchParams(init)\<close> for a string: a leading \<^verbatim>\<open>?\<close> is dropped, the rest is
  split at \<^verbatim>\<open>&\<close>, empty pieces are skipped, each piece is split at its first \<^verbatim>\<open>=\<close>.
  \<^verbatim>\<open>get\<close> returns the first value of a name, or \<^verbatim>\<open>null\<close>.\<close>

definition URLSearchParams :: "string \<Rightarrow> (string \<times> string) list" where
  "URLSearchParams init =
    map parsePair (filter (\<lambda>p. p \<noteq> [])
      (splitOn ''&'' (utf8Encode (if prefix ''?'' init then drop 1 init else init))))"

definition params_get :: "(string \<times> string) list \<Rightarrow> string \<Rightarrow> string option" where
  "params_get params name = map_of params name"

subsection \<open>\<^verbatim>\<open>processGoogleLoginData\<close>, lines 312-391\<close>

text \<open>The class \<^verbatim>\<open>[\w\s=&%@.-]\<close> whose complement line 337 removes, and the characters
  of line 347.\<close>

definition isWordChar :: "char \<Rightarrow> bool" where
  "isWordChar c = (isDigit c \<or> (65 \<le> (of_char c :: nat) \<and> (of_char c :: nat) \<le> 90)
     \<or> (97 \<le> (of_char c :: nat) \<and> (of_char c :: nat) \<le> 122) \<or> c = CHR ''_'')"

definition allowedChar :: "char \<Rightarrow> bool" where
  "allowedChar c = (isWordChar c \<or> isWhiteSpace c
     \<or> c \<in> {CHR ''='', CHR ''&'', CHR ''%'', CHR ''@'', CHR ''.'', CHR ''-''})"

definition illegalChars :: "char list" where
  "illegalChars = [CHR '' '', dquote, CHR 0x27, CHR ''<'', CHR ''>'', backslash, CHR ''{'', CHR ''}'']"

text \<open>The loop of lines 346-353: the least index of an illegal character at or after
  \<open>startIndex\<close>, or the length of the URL.\<close>

definition scanEnd :: "string \<Rightarrow> nat \<Rightarrow> nat" where
  "scanEnd url startIndex =
    foldl (\<lambda>endIndex ch.
             case indexOfFrom url [ch] startIndex of
               None \<Rightarrow> endIndex
             | Some charIndex \<Rightarrow> if charIndex < endIndex then charIndex else endIndex)
          (length url) illegalChars"

text \<open>The literal \<^verbatim>\<open>'google_id='\<close> that lines 317-344 look for, bare or behind
  \<^verbatim>\<open>?\<close>, \<^verbatim>\<open>#\<close> or \<^verbatim>\<open>/\<close>.\<close>

definition idKey :: string where
  "idKey = ''google_id=''"

datatype js_error = TypeError

datatype branch = QueryString | HashFragment | EmbeddedSlash | EmbeddedOther

text \<open>Which branch of lines 323-369 a URL holding the key takes.\<close>

definition branchOf :: "string \<Rightarrow> branch option" where
  "branchOf url =
    (if \<not> str_includes url idKey then None
     else if str_includes url (CHR ''?'' # idKey) then Some QueryString
     else if str_includes url (CHR ''#'' # idKey) then Some HashFragment
     else if str_includes url (CHR ''/'' # idKey) then Some EmbeddedSlash
     else Some EmbeddedOther)"

text \<open>
  The parameters each branch builds.  In the hash branch \<^verbatim>\<open>url.split('#')[1]\<close> would be
  \<^verbatim>\<open>undefined\<close> were there no second piece, and \<^verbatim>\<open>new URLSearchParams(undefined)\<close> is
  empty; in the slash branch \<^verbatim>\<open>fullPath.replace\<close> on \<^verbatim>\<open>undefined\<close> would throw a
  \<^verbatim>\<open>TypeError\<close>.
\<close>

definition branchParams :: "branch \<Rightarrow> string \<Rightarrow> js_error + (string \<times> string) list" where
  "branchParams b url =
    (case b of
       QueryString \<Rightarrow> Inr (URLSearchParams (location_search url))
     | HashFragment \<Rightarrow>
         (case element (splitOn ''#'' url) 1 of
            None \<Rightarrow> Inr []
          | Some hashParams \<Rightarrow> Inr (URLSearchParams hashParams))
     | EmbeddedSlash \<Rightarrow>
         (case element (splitOn (CHR ''/'' # idKey) url) 1 of
            None \<Rightarrow> Inl TypeError
          | Some fullPath \<Rightarrow>
              Inr (URLSearchParams (idKey @ filter allowedChar fullPath)))
     | EmbeddedOther \<Rightarrow>
         (let startIndex = (case indexOf url idKey of None \<Rightarrow> 0 | Some i \<Rightarrow> i);
              endIndex = scanEnd url startIndex
          in Inr (URLSearchParams (substring url startIndex endIndex))))"

text \<open>
  The identity read from the current URL: the four values of lines 372-375 when
  \<^verbatim>\<open>googleId\<close> is truthy (line 391), and nothing when the key is not in the URL, when a
  step throws (the \<^verbatim>\<open>catch\<close> of line 523) or when \<^verbatim>\<open>googleId\<close> is \<^verbatim>\<open>null\<close> or empty.
\<close>

datatype extracted
  = NoLoginData
  | Thrown js_error
  | MissingGoogleId
  | Identity string "string option" "string option" "string option"

definition identityFrom :: "(string \<times> string) list \<Rightarrow> extracted" where
  "identityFrom params =
    (let googleId = params_get params ''google_id'';
         name = params_get params ''name'';
         email = params_get params ''email'';
         picture = params_get params ''picture''
     in if truthy googleId then Identity (or_else googleId []) name email picture
        else MissingGoogleId)"

definition extractLoginData :: "string \<Rightarrow> extracted" where
  "extractLoginData url =
    (case branchOf url of
       None \<Rightarrow> NoLoginData
     | Some b \<Rightarrow>
         (case branchParams b url of
            Inl e \<Rightarrow> Thrown e
          | Inr params \<Rightarrow> identityFrom params))"

text \<open>The extractor of the specification (its \<^verbatim>\<open>extract\<close>): the identity, or "not found".\<close>

definition extractIdentity :: "string \<Rightarrow> (string \<times> string option \<times> string option \<times> string option) option" where
  "extractIdentity url =
    (case extractLoginData url of
       Identity googleId name email picture \<Rightarrow> Some (googleId, name, email, picture)
     | _ \<Rightarrow> None)"



section \<open>Auth orchestrator\<close>

text \<open>\<^verbatim>\<open>encodeURIComponent\<close>: letters, digits and \<^verbatim>\<open>- _ . ! ~ * ' ( )\<close> stand for
  themselves, every other code unit is written as the \<^verbatim>\<open>%XX\<close> bytes of its UTF-8
  encoding.\<close>

definition isUnreserved :: "char \<Rightarrow> bool" where
  "isUnreserved c = (isWordChar c
     \<or> c \<in> {CHR ''-'', CHR ''.'', CHR ''!'', CHR ''~'', CHR ''*'', CHR 0x27, CHR ''('', CHR '')''})"

definition hexUpper :: "nat \<Rightarrow> char" where
  "hexUpper d = (if d < 10 then char_of (48 + d) else char_of (55 + d))"

definition percentByte :: "nat \<Rightarrow> string" where
  "percentByte n = [CHR ''%'', hexUpper (n div 16), hexUpper (n mod 16)]"

definition encodeURIComponent :: "string \<Rightarrow> string" where
  "encodeURIComponent s =
    concat (map (\<lambda>c. if isUnreserved c then [c]
                      else if (of_char c :: nat) < 128 then percentByte (of_char c)
                      else percentByte (192 + of_char c div 64) @ percentByte (128 + of_char c mod 64))
                s)"

text \<open>The generated-avatar URL of lines 270, 1143 and 1312, for the name it is keyed by.\<close>

definition generatedAvatar :: "string \<Rightarrow> string" where
  "generatedAvatar key =
    ''https://ui-avatars.com/api/?name='' @ encodeURIComponent key @ ''&background=random''"

text \<open>The hosts on which \<^verbatim>\<open>mockGoogleLogin\<close> is allowed (script.js 1115-1118).\<close>

definition isAllowedDomain :: "string \<Rightarrow> bool" where
  "isAllowedDomain hostname =
    (hostname = ''localhost'' \<or> hostname = ''127.0.0.1''
     \<or> hostname = ''qhdsalsm.com'' \<or> hostname = ''www.qhdsalsm.com'')"

text \<open>
  The object literal of \<^verbatim>\<open>mockGoogleLogin\<close> (script.js 1139-1146).  \<open>now\<close> is the reading of
  \<^verbatim>\<open>Date.now()\<close>, \<open>rnd\<close> the text \<^verbatim>\<open>Math.random().toString(36).substring(2)\<close>.
\<close>

definition mockUserData ::
  "int \<Rightarrow> string \<Rightarrow> string \<Rightarrow> string option \<Rightarrow> string option \<Rightarrow> string option \<Rightarrow> json" where
  "mockUserData now rnd googleId name email picture =
    userData (''mock-'' @ toString (Num now))
      (or_else name (or_else email ''Local User''))
      (''mock-token-'' @ rnd)
      googleId
      (Some (or_else picture (generatedAvatar (or_else name ''User''))))
      (or_else email [])"

text \<open>
  \<^verbatim>\<open>mockGoogleLogin\<close> (script.js 1110-1227): whether it signed the user in, and the storage
  afterwards.  The page elements it touches after storing are taken to exist.
\<close>

definition mockGoogleLogin ::
  "string \<Rightarrow> int \<Rightarrow> string \<Rightarrow> string option \<Rightarrow> string option \<Rightarrow> string option \<Rightarrow> string option
     \<Rightarrow> storage \<Rightarrow> bool \<times> storage" where
  "mockGoogleLogin hostname now rnd googleId name email picture st =
    (if \<not> isAllowedDomain hostname then (False, st)
     else if \<not> truthy googleId then (False, st)
     else (True,
           removeItem
             (setItem st ''user''
                (JSON_stringify (mockUserData now rnd (or_else googleId []) name email picture)))
             ''usageCount''))"

text \<open>
  Property access and truthiness on parsed JSON; \<^term>\<open>None\<close> is \<^verbatim>\<open>undefined\<close>.  A number
  literal is falsy when the double it denotes is zero: its digits are all zero, or its
  value \<open>m * 10 ^ e\<close> is at most \<open>2 ^ - 1075\<close>, half the least positive double, and so
  rounds to zero.
\<close>

definition getProp :: "json \<Rightarrow> string \<Rightarrow> json option" where
  "getProp v k = (case v of JObj ms \<Rightarrow> map_of ms k | _ \<Rightarrow> None)"

definition digitsValue :: "string \<Rightarrow> int" where
  "digitsValue ds = foldl (\<lambda>a c. 10 * a + int (hexVal c)) 0 ds"

definition isZeroLiteral :: "string \<Rightarrow> bool" where
  "isZeroLiteral l =
    (let mantissa = takeWhile (\<lambda>c. c \<noteq> CHR ''e'' \<and> c \<noteq> CHR ''E'') l;
         exponent = drop 1 (dropWhile (\<lambda>c. c \<noteq> CHR ''e'' \<and> c \<noteq> CHR ''E'') l);
         m = digitsValue (filter isDigit mantissa);
         fractionDigits = length (filter isDigit (dropWhile (\<lambda>c. c \<noteq> CHR ''.'') mantissa));
         x = digitsValue (filter isDigit exponent);
         e = (if prefix ''-'' exponent then - x else x) - int fractionDigits
     in m = 0 \<or> (e < 0 \<and> m * 2 ^ 1075 \<le> 10 ^ nat (- e)))"

definition truthyJson :: "json option \<Rightarrow> bool" where
  "truthyJson v =
    (case v of
       None \<Rightarrow> False
     | Some JNull \<Rightarrow> False
     | Some (JBool b) \<Rightarrow> b
     | Some (JNum l) \<Rightarrow> \<not> isZeroLiteral l
     | Some (JStr s) \<Rightarrow> s \<noteq> []
     | Some _ \<Rightarrow> True)"

text \<open>
  The completion of \<^verbatim>\<open>fetch('/api/google-login', ...)\<close>: the promise is rejected, or a
  response arrives with a status and a body.  The errors of the promise chain
  (script.js 414-438 and 488-491) are values; the message shown is
  \<^verbatim>\<open>'Google login failed: '\<close> followed by the error's text.
\<close>

datatype response = TransportError | Response nat string

datatype login_error
  = FetchRejected
  | BadStatus nat
  | EmptyResponse
  | InvalidJson
  | NullData
  | NoToken "json option"

definition trim :: "string \<Rightarrow> string" where
  "trim s = rev (dropWhile isWhiteSpace (rev (dropWhile isWhiteSpace s)))"

definition exchangeData :: "response \<Rightarrow> login_error + json" where
  "exchangeData r =
    (case r of
       TransportError \<Rightarrow> Inl FetchRejected
     | Response status text \<Rightarrow>
         if \<not> (200 \<le> status \<and> status \<le> 299) then Inl (BadStatus status)
         else if trim text = [] then Inl EmptyResponse
         else (case JSON_parse text of
                 None \<Rightarrow> Inl InvalidJson
               | Some data \<Rightarrow>
                   if data = JNull then Inl NullData
                   else if truthyJson (getProp data ''token'') then Inr data
                   else Inl (NoToken (getProp data ''error''))))"

text \<open>The object literal of the exchange path (script.js 446-453); a property whose value
  is \<^verbatim>\<open>undefined\<close> is not serialised.\<close>

definition exchangeUserData ::
  "json \<Rightarrow> string \<Rightarrow> string option \<Rightarrow> string option \<Rightarrow> string option \<Rightarrow> json" where
  "exchangeUserData data googleId name email picture = JObj
    ((case getProp data ''user_id'' of None \<Rightarrow> [] | Some v \<Rightarrow> [(''userId'', v)])
     @ [(''username'',
          (if truthyJson (getProp data ''username'')
           then (case getProp data ''username'' of Some v \<Rightarrow> v | None \<Rightarrow> JNull)
           else JStr (or_else name (or_else email ''User'')))),
        (''token'', (case getProp data ''token'' of Some v \<Rightarrow> v | None \<Rightarrow> JNull)),
        (''googleId'', JStr googleId),
        (''picture'', (case picture of None \<Rightarrow> JNull | Some p \<Rightarrow> JStr p)),
        (''email'', JStr (or_else email []))])"

datatype outcome = NothingDone | MissingInformation | SignedIn | LoginFailed login_error

text \<open>
  The specification's \<^verbatim>\<open>resolve\<close>: lines 392-509 of \<^verbatim>\<open>processGoogleLoginData\<close>, for an
  identity whose \<^verbatim>\<open>googleId\<close> is truthy.  On the designated hosts the Session is
  synthesized and the exchange is never made; elsewhere the exchange is made, and its
  \<^verbatim>\<open>catch\<close> handler tries \<^verbatim>\<open>mockGoogleLogin\<close> before it shows the failure.
\<close>

definition resolve ::
  "string \<Rightarrow> response \<Rightarrow> int \<Rightarrow> string \<Rightarrow> string \<Rightarrow> string option \<Rightarrow> string option \<Rightarrow> string option
     \<Rightarrow> storage \<Rightarrow> outcome \<times> storage" where
  "resolve hostname r now rnd googleId name email picture st =
    (if hostname = ''localhost'' \<or> hostname = ''127.0.0.1''
        \<or> hostname = ''qhdsalsm.com'' \<or> hostname = ''www.qhdsalsm.com''
     then (case mockGoogleLogin hostname now rnd (Some googleId) name email picture st of
             (ok, st') \<Rightarrow> (if ok then SignedIn else NothingDone, st'))
     else (case exchangeData r of
             Inr data \<Rightarrow> (SignedIn, login (exchangeUserData data googleId name email picture) st)
           | Inl err \<Rightarrow>
               (case mockGoogleLogin hostname now rnd (Some googleId) name email picture st of
                  (ok, st') \<Rightarrow> if ok then (SignedIn, st') else (LoginFailed err, st))))"

text \<open>\<^verbatim>\<open>processGoogleLoginData\<close> (script.js 310-527) as a whole.\<close>

definition processGoogleLoginData ::
  "string \<Rightarrow> string \<Rightarrow> response \<Rightarrow> int \<Rightarrow> string \<Rightarrow> storage \<Rightarrow> outcome \<times> storage" where
  "processGoogleLoginData hostname url r now rnd st =
    (case extractLoginData url of
       NoLoginData \<Rightarrow> (NothingDone, st)
     | Thrown e \<Rightarrow> (NothingDone, st)
     | MissingGoogleId \<Rightarrow> (MissingInformation, st)
     | Identity googleId name email picture \<Rightarrow>
         resolve hostname r now rnd googleId name email picture st)"

section \<open>Auxiliary notions of the proofs\<close>

text \<open>In \<open>base @ sep @ rest\<close> no occurrence of the separator starts inside the base (used
  to say that the parameter list begins at the first occurrence of the key).\<close>

definition firstAt :: "string \<Rightarrow> string \<Rightarrow> string \<Rightarrow> bool" where
  "firstAt sep base rest = (\<forall>a b. base = a @ b \<and> b \<noteq> [] \<longrightarrow> \<not> prefix sep (b @ sep @ rest))"

text \<open>What \<^verbatim>\<open>parseInt(localStorage.getItem('usageCount') || '0')\<close> reads in a storage.\<close>

definition counterReads :: "storage \<Rightarrow> jsnum \<Rightarrow> bool" where
  "counterReads st x = (parseInt (or_else (getItem st ''usageCount'') ''0'') = x)"

section \<open>Numbers as strings\<close>

lemma of_char_digitChar: "d < 10 \<Longrightarrow> of_char (digitChar d) = (48 + d :: nat)"
  by (simp add: digitChar_def)

lemma isDigit_digitChar: "d < 10 \<Longrightarrow> isDigit (digitChar d)"
  by (simp add: isDigit_def of_char_digitChar)

lemma hexVal_digitChar: "d < 10 \<Longrightarrow> hexVal (digitChar d) = d"
  by (simp add: hexVal_def of_char_digitChar)

lemma natDigits_all_digits: "c \<in> set (natDigits n) \<Longrightarrow> isDigit c"
proof (induction n rule: natDigits.induct)
  case (1 n)
  show ?case
  proof (cases "n < 10")
    case True
    with "1.prems" show ?thesis
      by (simp add: natDigits.simps [of n] isDigit_digitChar)
  next
    case False
    with "1.prems" "1.IH" show ?thesis
      by (auto simp add: natDigits.simps [of n] isDigit_digitChar)
  qed
qed

lemma natDigits_nonempty: "natDigits n \<noteq> []"
  by (subst natDigits.simps) simp

lemma natDigits_value: "foldl (\<lambda>a c. 10 * a + hexVal c) 0 (natDigits n) = n"
proof (induction n rule: natDigits.induct)
  case (1 n)
  show ?case
  proof (cases "n < 10")
    case True
    then show ?thesis
      by (simp add: natDigits.simps [of n] hexVal_digitChar)
  next
    case False
    with "1.IH" show ?thesis
      by (simp add: natDigits.simps [of n] hexVal_digitChar)
  qed
qed

lemma isDigit_not_special:
  "isDigit c \<Longrightarrow> \<not> isWhiteSpace c \<and> c \<noteq> CHR ''-'' \<and> c \<noteq> CHR ''+'' \<and> c \<noteq> CHR ''x'' \<and> c \<noteq> CHR ''X''"
  by (auto simp add: isDigit_def isWhiteSpace_def)

lemma parseInt_digits:
  assumes "ds \<noteq> []" "\<forall>c \<in> set ds. isDigit c"
  shows "parseInt ds = Num (int (foldl (\<lambda>a c. 10 * a + hexVal c) 0 ds))"
proof -
  obtain c cs where ds: "ds = c # cs" using assms(1) by (cases ds) auto
  have c: "isDigit c" using assms(2) ds by simp
  have dw: "dropWhile isWhiteSpace ds = ds"
    using c isDigit_not_special ds by simp
  have t1: "take 1 ds \<noteq> ''-''" "take 1 ds \<noteq> ''+''"
    using c isDigit_not_special ds by auto
  have t2: "take 2 ds \<noteq> ''0x''" "take 2 ds \<noteq> ''0X''"
    using assms(2) isDigit_not_special ds by (cases cs; auto)+
  have tw: "takeWhile isDigit ds = ds"
    using assms(2) by (simp add: takeWhile_eq_all_conv)
  show ?thesis
    unfolding parseInt_def Let_def dw using t1 t2 assms(1) by (simp add: tw)
qed

lemma parseInt_natDigits: "parseInt (natDigits n) = Num (int n)"
  using parseInt_digits [of "natDigits n"] natDigits_all_digits natDigits_nonempty natDigits_value
  by simp

lemma parseInt_neg_digits:
  assumes "ds \<noteq> []" "\<forall>c \<in> set ds. isDigit c"
  shows "parseInt (CHR ''-'' # ds) = Num (- int (foldl (\<lambda>a c. 10 * a + hexVal c) 0 ds))"
proof -
  obtain c cs where ds: "ds = c # cs" using assms(1) by (cases ds) auto
  have t2: "take 2 ds \<noteq> ''0x''" "take 2 ds \<noteq> ''0X''"
    using assms(2) isDigit_not_special ds by (cases cs; auto)+
  have tw: "takeWhile isDigit ds = ds"
    using assms(2) by (simp add: takeWhile_eq_all_conv)
  have nw: "\<not> isWhiteSpace CHR ''-''" by (simp add: isWhiteSpace_def)
  show ?thesis
    unfolding parseInt_def Let_def using t2 assms(1) nw by (simp add: tw)
qed

lemma parseInt_toString: "parseInt (toString (Num i)) = Num i"
proof (cases "i < 0")
  case True
  then show ?thesis
    using parseInt_neg_digits [of "natDigits (nat (- i))"]
      natDigits_all_digits natDigits_nonempty natDigits_value
    by (simp add: toString_def)
next
  case False
  then show ?thesis by (simp add: toString_def parseInt_natDigits)
qed

lemma parseInt_NaN: "parseInt ''NaN'' = NaN"
  by (simp add: parseInt_def isWhiteSpace_def isDigit_def)

lemma toString_nonempty: "toString x \<noteq> []"
  by (cases x) (simp_all add: toString_def natDigits_nonempty)

lemma or_else_toString: "or_else (Some (toString x)) d = toString x"
  by (simp add: or_else_def toString_nonempty)


lemma counterReads_absent: "getItem st ''usageCount'' = None \<Longrightarrow> counterReads st (Num 0)"
  by (simp add: counterReads_def or_else_def parseInt_def isWhiteSpace_def isDigit_def hexVal_def)

lemma counterReads_set: "counterReads (setItem st ''usageCount'' (toString (Num i))) (Num i)"
  by (simp add: counterReads_def getItem_def setItem_def or_else_toString parseInt_toString)

lemma increment_below:
  assumes "\<not> isLoggedIn st" "counterReads st (Num i)" "i + 1 < 15"
  shows "incrementUsageCount t st = (False, setItem st ''usageCount'' (toString (Num (i + 1))))"
  using assms by (simp add: incrementUsageCount_def counterReads_def increment_def ge_js_def Let_def)

lemma increment_reached:
  assumes "\<not> isLoggedIn st" "counterReads st (Num i)" "15 \<le> i + 1"
  shows "incrementUsageCount t st =
           showLoginPrompt t (setItem st ''usageCount'' (toString (Num (i + 1))))"
  using assms by (simp add: incrementUsageCount_def counterReads_def increment_def ge_js_def Let_def)

lemma isLoggedIn_setItem: "k \<noteq> ''user'' \<Longrightarrow> isLoggedIn (setItem st k v) = isLoggedIn st"
  by (simp add: isLoggedIn_def getItem_def setItem_def)

lemma recordUses_append:
  "recordUses (xs @ ys) st =
     (fst (recordUses xs st) @ fst (recordUses ys (snd (recordUses xs st))),
      snd (recordUses ys (snd (recordUses xs st))))"
  by (induction xs arbitrary: st) (simp_all add: split_def Let_def)

lemma recordUses_below:
  assumes "\<not> isLoggedIn st" "counterReads st (Num i)" "i + int (length ts) < 15"
  shows "fst (recordUses ts st) = replicate (length ts) False
       \<and> \<not> isLoggedIn (snd (recordUses ts st))
       \<and> counterReads (snd (recordUses ts st)) (Num (i + int (length ts)))
       \<and> getItem (snd (recordUses ts st)) ''lastLoginPromptTime'' = getItem st ''lastLoginPromptTime''"
  using assms
proof (induction ts arbitrary: st i)
  case Nil
  then show ?case by simp
next
  case (Cons t ts)
  let ?st' = "setItem st ''usageCount'' (toString (Num (i + 1)))"
  have step: "incrementUsageCount t st = (False, ?st')"
    using Cons.prems by (intro increment_below) auto
  have a: "\<not> isLoggedIn ?st'" using Cons.prems(1) by (simp add: isLoggedIn_setItem)
  have b: "counterReads ?st' (Num (i + 1))" by (rule counterReads_set)
  have c: "i + 1 + int (length ts) < 15" using Cons.prems(3) by simp
  have d: "getItem ?st' ''lastLoginPromptTime'' = getItem st ''lastLoginPromptTime''"
    by (simp add: getItem_def setItem_def)
  from Cons.IH [OF a b c] step d show ?case
    by (simp add: split_def add.assoc)
qed

lemma showLoginPrompt_absent:
  "getItem st ''lastLoginPromptTime'' = None \<Longrightarrow>
   showLoginPrompt t st = (True, setItem st ''lastLoginPromptTime'' (toString (Num t)))"
  by (simp add: showLoginPrompt_def truthy_def)

lemma showLoginPrompt_stamp:
  "getItem st ''lastLoginPromptTime'' = Some (toString (Num l)) \<Longrightarrow>
   showLoginPrompt t st =
     (if 3600000 < t - l then (True, setItem st ''lastLoginPromptTime'' (toString (Num t)))
      else (False, st))"
  by (simp add: showLoginPrompt_def truthy_def toString_nonempty or_else_toString
      parseInt_toString minus_js_def gt_js_def)

lemma recordUses_cooling:
  assumes "\<not> isLoggedIn st" "counterReads st (Num i)" "14 \<le> i"
    and "getItem st ''lastLoginPromptTime'' = Some (toString (Num l))"
    and "\<forall>w \<in> set ws. w - l \<le> 3600000"
  shows "fst (recordUses ws st) = replicate (length ws) False
       \<and> \<not> isLoggedIn (snd (recordUses ws st))
       \<and> counterReads (snd (recordUses ws st)) (Num (i + int (length ws)))
       \<and> getItem (snd (recordUses ws st)) ''lastLoginPromptTime'' = Some (toString (Num l))"
  using assms
proof (induction ws arbitrary: st i)
  case Nil
  then show ?case by simp
next
  case (Cons w ws)
  let ?st' = "setItem st ''usageCount'' (toString (Num (i + 1)))"
  have d: "getItem ?st' ''lastLoginPromptTime'' = Some (toString (Num l))"
    using Cons.prems(4) by (simp add: getItem_def setItem_def)
  have "incrementUsageCount w st = showLoginPrompt w ?st'"
    using Cons.prems by (intro increment_reached) auto
  also have "\<dots> = (False, ?st')"
    using Cons.prems(5) by (simp add: showLoginPrompt_stamp [OF d])
  finally have step: "incrementUsageCount w st = (False, ?st')" .
  have a: "\<not> isLoggedIn ?st'" using Cons.prems(1) by (simp add: isLoggedIn_setItem)
  have b: "counterReads ?st' (Num (i + 1))" by (rule counterReads_set)
  have c: "14 \<le> i + 1" using Cons.prems(3) by simp
  have e: "\<forall>w \<in> set ws. w - l \<le> 3600000" using Cons.prems(5) by simp
  from Cons.IH [OF a b c d e] step show ?case
    by (simp add: split_def add.assoc)
qed

text \<open>
  Claim C2, as amended.  With no Session, the counter absent and the cooldown timestamp
  either absent or written more than 3600 s before the 15th call: 14 calls return
  "no prompt", the 15th returns "show prompt" and stores its clock reading as the cooldown
  timestamp, every further call at most 3600 s after that reading returns "no prompt", and
  a later call more than 3600 s after it returns "show prompt" again; the counter is never
  reset and ends at the number of calls.
\<close>

theorem recordUse_threshold_and_cooldown:
  assumes "\<not> isLoggedIn st" and "getItem st ''usageCount'' = None"
    and "getItem st ''lastLoginPromptTime'' = None
         \<or> (\<exists>l. getItem st ''lastLoginPromptTime'' = Some (toString (Num l)) \<and> 3600000 < t15 - l)"
    and "length ts = 14"
    and "\<forall>w \<in> set ws. w - t15 \<le> 3600000"
    and "3600000 < late - t15"
  shows "fst (recordUses (ts @ [t15] @ ws @ [late]) st)
           = replicate 14 False @ [True] @ replicate (length ws) False @ [True]
       \<and> getItem (snd (recordUses (ts @ [t15]) st)) ''lastLoginPromptTime''
           = Some (toString (Num t15))
       \<and> getItem (snd (recordUses (ts @ [t15] @ ws @ [late]) st)) ''usageCount''
           = Some (toString (Num (16 + int (length ws))))"
proof -
  let ?s1 = "snd (recordUses ts st)"
  have r0: "counterReads st (Num 0)" using assms(2) by (rule counterReads_absent)
  have p1: "fst (recordUses ts st) = replicate 14 False" "\<not> isLoggedIn ?s1"
    "counterReads ?s1 (Num 14)"
    "getItem ?s1 ''lastLoginPromptTime'' = getItem st ''lastLoginPromptTime''"
    using recordUses_below [OF assms(1) r0, of ts] assms(4) by simp_all
  let ?s1' = "setItem ?s1 ''usageCount'' (toString (Num 15))"
  let ?s2 = "setItem ?s1' ''lastLoginPromptTime'' (toString (Num t15))"
  have l1: "getItem ?s1' ''lastLoginPromptTime'' = getItem st ''lastLoginPromptTime''"
    using p1(4) by (simp add: getItem_def setItem_def)
  have "incrementUsageCount t15 ?s1 = showLoginPrompt t15 ?s1'"
    using increment_reached [OF p1(2) p1(3), of t15] by simp
  also have "\<dots> = (True, ?s2)"
    using assms(3) l1 showLoginPrompt_absent [of ?s1' t15] showLoginPrompt_stamp [of ?s1' _ t15]
    by auto
  finally have step15: "incrementUsageCount t15 ?s1 = (True, ?s2)" .
  have q: "\<not> isLoggedIn ?s2" "counterReads ?s2 (Num 15)"
    "getItem ?s2 ''lastLoginPromptTime'' = Some (toString (Num t15))"
    using p1(2) counterReads_set [of ?s1 15]
    by (simp_all add: isLoggedIn_def counterReads_def getItem_def setItem_def)
  let ?s3 = "snd (recordUses ws ?s2)"
  have p3: "fst (recordUses ws ?s2) = replicate (length ws) False" "\<not> isLoggedIn ?s3"
    "counterReads ?s3 (Num (15 + int (length ws)))"
    "getItem ?s3 ''lastLoginPromptTime'' = Some (toString (Num t15))"
    using recordUses_cooling [OF q(1) q(2) _ q(3) assms(5)] by simp_all
  let ?s3' = "setItem ?s3 ''usageCount'' (toString (Num (16 + int (length ws))))"
  have l3: "getItem ?s3' ''lastLoginPromptTime'' = Some (toString (Num t15))"
    using p3(4) by (simp add: getItem_def setItem_def)
  have "incrementUsageCount late ?s3 = showLoginPrompt late ?s3'"
    using increment_reached [OF p3(2) p3(3), of late] by (simp add: add.commute add.left_commute)
  also have "\<dots> = (True, setItem ?s3' ''lastLoginPromptTime'' (toString (Num late)))"
    using assms(6) by (simp add: showLoginPrompt_stamp [OF l3])
  finally have stepL:
    "incrementUsageCount late ?s3 = (True, setItem ?s3' ''lastLoginPromptTime'' (toString (Num late)))" .
  have A: "recordUses (ts @ [t15]) st = (replicate 14 False @ [True], ?s2)"
    using p1(1) step15 by (simp add: recordUses_append split_def)
  have B: "recordUses (ws @ [late]) ?s2 =
      (replicate (length ws) False @ [True], setItem ?s3' ''lastLoginPromptTime'' (toString (Num late)))"
    using p3(1) stepL by (simp add: recordUses_append split_def)
  have C: "recordUses (ts @ [t15] @ ws @ [late]) st =
      (replicate 14 False @ [True] @ replicate (length ws) False @ [True],
       setItem ?s3' ''lastLoginPromptTime'' (toString (Num late)))"
    using recordUses_append [of "ts @ [t15]" "ws @ [late]" st] A B by simp
  show ?thesis
    using A C q(3) by (simp add: getItem_def setItem_def)
qed

theorem recordUse_threshold_and_cooldown_witness:
  "fst (recordUses (replicate 14 1000 @ [2000] @ [3000] @ [3700000]) Map.empty)
     = replicate 14 False @ [True] @ replicate (length [3000 :: int]) False @ [True]
   \<and> getItem (snd (recordUses (replicate 14 1000 @ [2000]) Map.empty)) ''lastLoginPromptTime''
     = Some (toString (Num 2000))
   \<and> getItem (snd (recordUses (replicate 14 1000 @ [2000] @ [3000] @ [3700000]) Map.empty))
       ''usageCount'' = Some (toString (Num (16 + int (length [3000 :: int]))))"
  using recordUse_threshold_and_cooldown [of Map.empty 2000 "replicate 14 1000" "[3000]" 3700000]
  by (simp add: isLoggedIn_def getItem_def truthy_def)

text \<open>
  Claim C2 as stated names only the Session and the counter.  The cooldown timestamp
  outlives both (\<^verbatim>\<open>login\<close> removes only \<^verbatim>\<open>usageCount\<close>), so with a timestamp one second
  old the 15th call of a run that starts without Session and counter shows no prompt.
\<close>

theorem recordUse_fifteenth_call_counterexample:
  "\<not> isLoggedIn (Map.empty(''lastLoginPromptTime'' \<mapsto> ''1000''))
   \<and> getItem (Map.empty(''lastLoginPromptTime'' \<mapsto> ''1000'')) ''usageCount'' = None
   \<and> fst (recordUses (replicate 15 2000) (Map.empty(''lastLoginPromptTime'' \<mapsto> ''1000'')))
       = replicate 15 False"
  by code_simp

lemma incrementUsageCount_NaN:
  assumes "\<not> isLoggedIn st" "counterReads st NaN"
  shows "incrementUsageCount t st = (False, setItem st ''usageCount'' ''NaN'')"
  using assms
  by (simp add: incrementUsageCount_def counterReads_def increment_def ge_js_def toString_def)

lemma counterReads_NaN: "counterReads (setItem st ''usageCount'' ''NaN'') NaN"
  by (simp add: counterReads_def getItem_def setItem_def or_else_def parseInt_NaN)

lemma recordUses_NaN:
  assumes "\<not> isLoggedIn st" "counterReads st NaN"
  shows "fst (recordUses ts st) = replicate (length ts) False
       \<and> (ts \<noteq> [] \<longrightarrow> getItem (snd (recordUses ts st)) ''usageCount'' = Some ''NaN'')
       \<and> getItem (snd (recordUses ts st)) ''lastLoginPromptTime'' = getItem st ''lastLoginPromptTime''"
  using assms
proof (induction ts arbitrary: st)
  case Nil
  then show ?case by simp
next
  case (Cons t ts)
  let ?st' = "setItem st ''usageCount'' ''NaN''"
  have step: "incrementUsageCount t st = (False, ?st')"
    using Cons.prems by (rule incrementUsageCount_NaN)
  have a: "\<not> isLoggedIn ?st'" using Cons.prems(1) by (simp add: isLoggedIn_setItem)
  have b: "counterReads ?st' NaN" by (rule counterReads_NaN)
  have c: "getItem ?st' ''usageCount'' = Some ''NaN''"
    "getItem ?st' ''lastLoginPromptTime'' = getItem st ''lastLoginPromptTime''"
    by (simp_all add: getItem_def setItem_def)
  from Cons.IH [OF a b] step c show ?case
    by (cases ts) (simp_all add: split_def)
qed

text \<open>
  Claim C10 as stated speaks of every stored value whose integer parse fails.  The empty
  string is such a value (\<^verbatim>\<open>parseInt('')\<close> is \<^verbatim>\<open>NaN\<close>), but line 61 reads \<^verbatim>\<open>'0'\<close> in its
  place: the call stores \<^verbatim>\<open>1\<close>, the counter counts on and the 15th call shows the prompt.
\<close>

theorem empty_counter_is_healed_counterexample:
  "parseInt [] = NaN
   \<and> \<not> isLoggedIn (Map.empty(''usageCount'' \<mapsto> []))
   \<and> getItem (snd (incrementUsageCount 5 (Map.empty(''usageCount'' \<mapsto> [])))) ''usageCount''
       = Some ''1''
   \<and> fst (recordUses (replicate 15 5) (Map.empty(''usageCount'' \<mapsto> [])))
       = replicate 14 False @ [True]"
  by code_simp

text \<open>
  Claim C10, as amended.  Without a Session, when the stored counter is a non-empty string
  whose integer parse fails, the call stores the literal string \<^verbatim>\<open>NaN\<close> and returns
  "no prompt"; so does every later anonymous call, and the counter stays \<^verbatim>\<open>NaN\<close>: it is
  neither deleted nor repaired.  An empty stored string is read as \<^verbatim>\<open>'0'\<close>: the call stores
  \<^verbatim>\<open>1\<close> and returns "no prompt".
\<close>

theorem unparsable_counter_sticks_at_NaN:
  "(\<not> isLoggedIn st \<and> getItem st ''usageCount'' = Some v \<and> v \<noteq> [] \<and> parseInt v = NaN \<longrightarrow>
      incrementUsageCount t st = (False, setItem st ''usageCount'' ''NaN'')
      \<and> fst (recordUses (t # ts) st) = replicate (Suc (length ts)) False
      \<and> getItem (snd (recordUses (t # ts) st)) ''usageCount'' = Some ''NaN'')
   \<and> (\<not> isLoggedIn st \<and> getItem st ''usageCount'' = Some [] \<longrightarrow>
      incrementUsageCount t st = (False, setItem st ''usageCount'' ''1''))"
proof (intro conjI impI)
  assume h: "\<not> isLoggedIn st \<and> getItem st ''usageCount'' = Some v \<and> v \<noteq> [] \<and> parseInt v = NaN"
  then have anon: "\<not> isLoggedIn st" and reads: "counterReads st NaN"
    by (simp_all add: counterReads_def or_else_def)
  show "incrementUsageCount t st = (False, setItem st ''usageCount'' ''NaN'')"
    using anon reads by (rule incrementUsageCount_NaN)
  show "fst (recordUses (t # ts) st) = replicate (Suc (length ts)) False"
    using recordUses_NaN [OF anon reads, of "t # ts"] by simp
  show "getItem (snd (recordUses (t # ts) st)) ''usageCount'' = Some ''NaN''"
    using recordUses_NaN [OF anon reads, of "t # ts"] by simp
next
  assume h: "\<not> isLoggedIn st \<and> getItem st ''usageCount'' = Some []"
  then have "counterReads st (Num 0)"
    by (simp add: counterReads_def or_else_def parseInt_def isWhiteSpace_def isDigit_def hexVal_def)
  with h have "incrementUsageCount t st = (False, setItem st ''usageCount'' (toString (Num (0 + 1))))"
    by (intro increment_below) simp_all
  moreover have "toString (Num 1) = ''1''"
    by code_simp
  ultimately show "incrementUsageCount t st = (False, setItem st ''usageCount'' ''1'')" by simp
qed

theorem unparsable_counter_sticks_at_NaN_witness:
  "incrementUsageCount 5 (Map.empty(''usageCount'' \<mapsto> ''abc''))
      = (False, setItem (Map.empty(''usageCount'' \<mapsto> ''abc'')) ''usageCount'' ''NaN'')
   \<and> fst (recordUses (5 # [6, 7]) (Map.empty(''usageCount'' \<mapsto> ''abc'')))
      = replicate (Suc (length [6, 7 :: int])) False
   \<and> getItem (snd (recordUses (5 # [6, 7]) (Map.empty(''usageCount'' \<mapsto> ''abc''))))
       ''usageCount'' = Some ''NaN''
   \<and> incrementUsageCount 5 (Map.empty(''usageCount'' \<mapsto> []))
      = (False, setItem (Map.empty(''usageCount'' \<mapsto> [])) ''usageCount'' ''1'')"
proof -
  have h1: "\<not> isLoggedIn (Map.empty(''usageCount'' \<mapsto> ''abc''))"
    "\<not> isLoggedIn (Map.empty(''usageCount'' \<mapsto> []))"
    by (simp_all add: isLoggedIn_def getItem_def truthy_def)
  have h2: "getItem (Map.empty(''usageCount'' \<mapsto> ''abc'')) ''usageCount'' = Some ''abc''"
    "getItem (Map.empty(''usageCount'' \<mapsto> [])) ''usageCount'' = Some []"
    by (simp_all add: getItem_def)
  have h3: "''abc'' \<noteq> []" "parseInt ''abc'' = NaN"
    by (simp_all add: parseInt_def isWhiteSpace_def isDigit_def)
  from unparsable_counter_sticks_at_NaN [of "Map.empty(''usageCount'' \<mapsto> ''abc'')" "''abc''" 5 "[6, 7]"]
    unparsable_counter_sticks_at_NaN [of "Map.empty(''usageCount'' \<mapsto> [])" "[]" 5 "[]"]
    h1 h2 h3
  show ?thesis by blast
qed

section \<open>JSON round trip and the session store\<close>

lemma consTo_Some [simp]: "consTo c (Some (t, r)) = Some (c # t, r)"
  by (simp add: consTo_def)

lemma of_char_hexDigitChar:
  "d < 16 \<Longrightarrow> of_char (hexDigitChar d) = (if d < 10 then 48 + d else 87 + d :: nat)"
  by (simp add: hexDigitChar_def)

lemma hexDigitChar_props:
  assumes "d < 16"
  shows "isHexDigit (hexDigitChar d)" "hexVal (hexDigitChar d) = d"
  using assms
  by (auto simp add: isHexDigit_def isDigit_def hexVal_def of_char_hexDigitChar)

lemma parseStringBody_escape:
  assumes "parseStringBody (xs @ dquote # rest) = Some (s, rest)"
  shows "parseStringBody (escapeChar c @ xs @ dquote # rest) = Some (c # s, rest)"
proof -
  let ?n = "of_char c :: nat"
  consider (q) "c = dquote" | (b) "c = backslash"
    | (short) "c \<in> {CHR 0x08, CHR 0x0C, CHR 0x0A, CHR 0x0D, CHR 0x09}"
    | (ctl) "c \<noteq> dquote" "c \<noteq> backslash"
        "c \<notin> {CHR 0x08, CHR 0x0C, CHR 0x0A, CHR 0x0D, CHR 0x09}" "?n < 32"
    | (plain) "c \<noteq> dquote" "c \<noteq> backslash" "\<not> ?n < 32"
    by auto
  then show ?thesis
  proof cases
    case q
    then show ?thesis using assms
      by (simp add: escapeChar_def unescape_def)
  next
    case b
    then show ?thesis using assms
      by (simp add: escapeChar_def unescape_def)
  next
    case short
    then show ?thesis using assms
      by (auto simp add: escapeChar_def unescape_def)
  next
    case ctl
    have hi: "?n div 16 < 16" and lo: "?n mod 16 < 16" using ctl(4) by auto
    have esc: "escapeChar c = [backslash, CHR ''u'', CHR ''0'', CHR ''0'',
        hexDigitChar (?n div 16), hexDigitChar (?n mod 16)]"
      using ctl by (simp add: escapeChar_def)
    have z: "isHexDigit CHR ''0''" "hexVal CHR ''0'' = 0"
      by (simp_all add: isHexDigit_def isDigit_def hexVal_def)
    have val: "char_of (16 * hexVal (hexDigitChar (?n div 16)) + hexVal (hexDigitChar (?n mod 16))) = c"
      using hexDigitChar_props(2) [OF hi] hexDigitChar_props(2) [OF lo] by simp
    show ?thesis
      unfolding esc using assms hexDigitChar_props(1) [OF hi] hexDigitChar_props(1) [OF lo] z val
      by simp
  next
    case plain
    have "c \<notin> {CHR 0x08, CHR 0x0C, CHR 0x0A, CHR 0x0D, CHR 0x09}"
      using plain(3) by auto
    then show ?thesis using assms plain
      by (simp add: escapeChar_def)
  qed
qed

lemma parseStringBody_quoted:
  "parseStringBody (concat (map escapeChar s) @ dquote # rest) = Some (s, rest)"
proof (induction s)
  case Nil
  show ?case by simp
next
  case (Cons c s)
  show ?case
    using parseStringBody_escape [OF Cons.IH, of c] by simp
qed

lemma skipWs_Cons: "\<not> isJsonWs c \<Longrightarrow> skipWs (c # cs) = c # cs"
  by (simp add: skipWs_def)

lemma notWs: "\<not> isJsonWs dquote" "\<not> isJsonWs CHR '':''" "\<not> isJsonWs CHR '',''"
  "\<not> isJsonWs CHR ''}''" "\<not> isJsonWs CHR ''n''" "\<not> isJsonWs CHR ''{''"
  by (simp_all add: isJsonWs_def)


lemma parseValue_simple:
  assumes "simpleValue v"
  shows "parseValue (Suc n) (JSON_stringify v @ rest) = Some (v, rest)"
proof (cases v)
  case JNull
  then show ?thesis by simp
next
  case (JStr s)
  then show ?thesis
    by (simp add: quoteJSON_def parseStringBody_quoted)
qed (use assms in simp_all)

declare parseValue.simps [simp del] parseElements.simps [simp del] parseMembers.simps [simp del]

lemma stringify_simple_hd:
  assumes "simpleValue v"
  shows "skipWs (JSON_stringify v @ rest) = JSON_stringify v @ rest"
proof (cases v)
  case JNull
  then show ?thesis by (simp add: skipWs_Cons notWs)
next
  case (JStr s)
  then show ?thesis by (simp add: quoteJSON_def skipWs_Cons notWs)
qed (use assms in simp_all)


lemma commaSep_Cons:
  "commaSep (x # xs) = x @ (if xs = [] then [] else '','' @ commaSep xs)"
  by (cases xs) simp_all

lemma members_hd:
  "ms \<noteq> [] \<Longrightarrow> skipWs (commaSep (map memberText ms) @ rest) = commaSep (map memberText ms) @ rest"
  by (cases ms) (simp_all add: commaSep_Cons memberText_def quoteJSON_def skipWs_Cons notWs)

lemma parseMembers_flat:
  assumes "ms \<noteq> []" "\<forall>m \<in> set ms. simpleValue (snd m)" "distinct (map fst ms)"
    and "length ms < n"
  shows "parseMembers n (commaSep (map memberText ms) @ CHR ''}'' # rest) = Some (ms, rest)"
  using assms
proof (induction ms arbitrary: n)
  case Nil
  then show ?case by simp
next
  case (Cons m ms)
  obtain k v where m: "m = (k, v)" by (cases m)
  obtain n' where n: "n = Suc (Suc n')" "length ms \<le> n'"
    using Cons.prems(4) by (cases n; cases "n - 1") auto
  have sv: "simpleValue v" using Cons.prems(2) m by simp
  show ?case
  proof (cases ms)
    case Nil
    show ?thesis
      unfolding Nil m n
      by (subst parseMembers.simps)
        (simp add: memberText_def quoteJSON_def parseStringBody_quoted notWs skipWs_Cons
          stringify_simple_hd [OF sv] parseValue_simple [OF sv])
  next
    case ms_Cons: (Cons m' ms')
    have IH: "parseMembers (Suc n') (commaSep (map memberText ms) @ CHR ''}'' # rest) = Some (ms, rest)"
      using Cons.IH [of "Suc n'"] Cons.prems n ms_Cons by simp
    have hd: "skipWs (commaSep (map memberText ms) @ CHR ''}'' # rest)
               = commaSep (map memberText ms) @ CHR ''}'' # rest"
      by (rule members_hd) (simp add: ms_Cons)
    have fresh: "map_of ms k = None"
      using Cons.prems(3) m by (simp add: map_of_eq_None_iff)
    have sep: "commaSep (map memberText (m # ms)) = memberText m @ '','' @ commaSep (map memberText ms)"
      unfolding ms_Cons by simp
    show ?thesis
      unfolding sep n
      using IH hd fresh
      by (subst parseMembers.simps)
        (simp add: m memberText_def quoteJSON_def parseStringBody_quoted notWs skipWs_Cons
          stringify_simple_hd [OF sv] parseValue_simple [OF sv] putMember_def)
  qed
qed

lemma length_commaSep_members: "length ms \<le> length (commaSep (map memberText ms))"
proof (induction ms)
  case Nil
  show ?case by simp
next
  case (Cons m ms)
  have "1 \<le> length (memberText m)" by (simp add: memberText_def quoteJSON_def)
  with Cons show ?case by (simp add: commaSep_Cons)
qed

lemma stringify_JObj:
  "JSON_stringify (JObj ms) = CHR ''{'' # commaSep (map memberText ms) @ ''}''"
proof -
  have "(\<lambda>m. quoteJSON (fst m) @ '':'' @ JSON_stringify (snd m)) = memberText"
    by (rule ext) (simp add: memberText_def)
  then show ?thesis by simp
qed

lemma JSON_parse_stringify_flat:
  assumes "\<forall>m \<in> set ms. simpleValue (snd m)" "distinct (map fst ms)"
  shows "JSON_parse (JSON_stringify (JObj ms)) = Some (JObj ms)"
proof (cases "ms = []")
  case True
  then show ?thesis
    by (simp add: JSON_parse_def skipWs_Cons notWs parseValue.simps skipWs_def)
next
  case False
  let ?body = "commaSep (map memberText ms)"
  have fuel: "length ms < Suc (length ?body + 1)"
    using length_commaSep_members [of ms] by simp
  have mem: "parseMembers (Suc (length ?body + 1)) (?body @ CHR ''}'' # []) = Some (ms, [])"
    using parseMembers_flat [OF False assms fuel] .
  have notclose: "\<not> prefix ''}'' (?body @ ''}'')"
    using False by (cases ms) (simp_all add: commaSep_Cons memberText_def quoteJSON_def)
  show ?thesis
    unfolding JSON_parse_def stringify_JObj
    using mem notclose members_hd [OF False, of "''}''"]
    by (simp add: skipWs_Cons notWs parseValue.simps) (simp add: skipWs_def)
qed

lemma userData_flat:
  "userData userId username token googleId picture email = JObj ms \<Longrightarrow>
   (\<forall>m \<in> set ms. simpleValue (snd m)) \<and> distinct (map fst ms)"
  by (auto simp add: userData_def split: option.splits)

lemma JSON_parse_userData:
  "JSON_parse (JSON_stringify (userData userId username token googleId picture email))
     = Some (userData userId username token googleId picture email)"
proof -
  obtain ms where ms: "userData userId username token googleId picture email = JObj ms"
    by (simp add: userData_def)
  show ?thesis
    unfolding ms using userData_flat [OF ms] by (intro JSON_parse_stringify_flat) auto
qed

lemma quoteJSON_nonempty: "quoteJSON s \<noteq> []"
  by (simp add: quoteJSON_def)

lemma stringify_userData_nonempty:
  "JSON_stringify (userData userId username token googleId picture email) \<noteq> []"
  by (simp add: userData_def)

text \<open>
  Claim C5.  \<^verbatim>\<open>login\<close> followed by \<^verbatim>\<open>getCurrentUser\<close> returns the Session object that
  was saved, equal in all six fields, and leaves the storage as \<^verbatim>\<open>login\<close> left it (with
  the usage counter removed).  The serialisation escapes quotes, backslashes and control
  characters, so the round trip holds for all field values, those of the claim included.
\<close>

theorem save_then_load_roundtrip:
  "getCurrentUser (login (userData userId username token googleId picture email) st)
     = (Some (userData userId username token googleId picture email),
        login (userData userId username token googleId picture email) st)
   \<and> getItem (login (userData userId username token googleId picture email) st) ''usageCount''
     = None"
proof -
  let ?u = "userData userId username token googleId picture email"
  have rec: "getItem (login ?u st) ''user'' = Some (JSON_stringify ?u)"
    by (simp add: login_def getItem_def setItem_def removeItem_def)
  have nn: "?u \<noteq> JNull" by (simp add: userData_def)
  show ?thesis
    using nn
    by (simp add: getCurrentUser_def rec truthy_def or_else_def stringify_userData_nonempty
        JSON_parse_userData)
      (simp add: login_def getItem_def removeItem_def)
qed

text \<open>
  Claim C6 as stated speaks of every stored record that fails to deserialize.  The empty
  string is such a record (\<^verbatim>\<open>JSON.parse('')\<close> throws), but line 35 takes it for "no
  record" and returns before anything is parsed or removed: the record stays.
\<close>

theorem empty_record_is_not_deleted_counterexample:
  "JSON_parse [] = None
   \<and> fst (getCurrentUser (Map.empty(''user'' \<mapsto> []))) = None
   \<and> getItem (snd (getCurrentUser (Map.empty(''user'' \<mapsto> [])))) ''user'' = Some []"
  by code_simp

text \<open>
  Claim C6, as amended.  A non-empty stored record that \<^verbatim>\<open>JSON.parse\<close> rejects makes
  \<^verbatim>\<open>getCurrentUser\<close> return \<^verbatim>\<open>null\<close> and remove the record, so no record is left and a
  second call returns \<^verbatim>\<open>null\<close> as well.  An empty stored record is taken for "no record":
  \<^verbatim>\<open>getCurrentUser\<close> returns \<^verbatim>\<open>null\<close> and leaves the storage as it is.
\<close>

theorem corrupt_record_is_deleted:
  "(getItem st ''user'' = Some r \<and> r \<noteq> [] \<and> JSON_parse r = None \<longrightarrow>
      getCurrentUser st = (None, removeItem st ''user'')
      \<and> getItem (snd (getCurrentUser st)) ''user'' = None
      \<and> getCurrentUser (snd (getCurrentUser st)) = (None, snd (getCurrentUser st)))
   \<and> (getItem st ''user'' = Some [] \<longrightarrow> getCurrentUser st = (None, st))"
proof (intro conjI impI)
  assume h: "getItem st ''user'' = Some r \<and> r \<noteq> [] \<and> JSON_parse r = None"
  have gone: "getItem (removeItem st ''user'') ''user'' = None"
    by (simp add: getItem_def removeItem_def)
  show first: "getCurrentUser st = (None, removeItem st ''user'')"
    using h by (simp add: getCurrentUser_def truthy_def or_else_def)
  show "getItem (snd (getCurrentUser st)) ''user'' = None"
    unfolding first using gone by simp
  show "getCurrentUser (snd (getCurrentUser st)) = (None, snd (getCurrentUser st))"
    unfolding first using gone by (simp add: getCurrentUser_def truthy_def)
next
  assume "getItem st ''user'' = Some []"
  then show "getCurrentUser st = (None, st)"
    by (simp add: getCurrentUser_def truthy_def)
qed

lemma JSON_parse_brace: "JSON_parse ''{'' = None"
  by (simp add: JSON_parse_def skipWs_def isJsonWs_def parseValue.simps parseMembers.simps)

theorem corrupt_record_is_deleted_witness:
  "getCurrentUser (Map.empty(''user'' \<mapsto> ''{'')) = (None, removeItem (Map.empty(''user'' \<mapsto> ''{'')) ''user'')
   \<and> getItem (snd (getCurrentUser (Map.empty(''user'' \<mapsto> ''{'')))) ''user'' = None
   \<and> getCurrentUser (snd (getCurrentUser (Map.empty(''user'' \<mapsto> ''{''))))
       = (None, snd (getCurrentUser (Map.empty(''user'' \<mapsto> ''{''))))
   \<and> getCurrentUser (Map.empty(''user'' \<mapsto> [])) = (None, Map.empty(''user'' \<mapsto> []))"
proof -
  have h1: "getItem (Map.empty(''user'' \<mapsto> ''{'')) ''user'' = Some ''{''"
    by (simp add: getItem_def)
  have h2: "''{'' \<noteq> []" by simp
  have h3: "getItem (Map.empty(''user'' \<mapsto> [])) ''user'' = Some []"
    by (simp add: getItem_def)
  from corrupt_record_is_deleted [of "Map.empty(''user'' \<mapsto> ''{'')" "''{''"]
    corrupt_record_is_deleted [of "Map.empty(''user'' \<mapsto> [])" "[]"]
    h1 h2 h3 JSON_parse_brace
  show ?thesis by blast
qed

text \<open>
  Claim C9 as stated fails on a corrupt record: \<^verbatim>\<open>isLoggedIn\<close> only tests that a non-empty
  record exists, \<^verbatim>\<open>getCurrentUser\<close> returns \<^verbatim>\<open>null\<close>.
\<close>

theorem isLoggedIn_disagrees_on_corrupt_record_counterexample:
  "isLoggedIn (Map.empty(''user'' \<mapsto> ''{''))
   \<and> fst (getCurrentUser (Map.empty(''user'' \<mapsto> ''{''))) = None"
  by (simp add: isLoggedIn_def getCurrentUser_def getItem_def truthy_def or_else_def
      JSON_parse_brace)

text \<open>
  Claim C9, as amended.  \<^verbatim>\<open>isLoggedIn\<close> is true exactly when a non-empty record is stored.
  A Session returned by \<^verbatim>\<open>getCurrentUser\<close> implies \<^verbatim>\<open>isLoggedIn\<close>; the two agree on every
  storage whose non-empty record deserialises to a value other than \<^verbatim>\<open>null\<close>; on a
  corrupt record \<^verbatim>\<open>isLoggedIn\<close> is true and \<^verbatim>\<open>getCurrentUser\<close> returns \<^verbatim>\<open>null\<close>, and
  they agree again once that call has removed the record.
\<close>

theorem isLoggedIn_agrees_on_readable_records:
  "(isLoggedIn st \<longleftrightarrow> (\<exists>r. getItem st ''user'' = Some r \<and> r \<noteq> []))
   \<and> (fst (getCurrentUser st) \<noteq> None \<longrightarrow> isLoggedIn st)
   \<and> ((\<forall>r. getItem st ''user'' = Some r \<and> r \<noteq> []
           \<longrightarrow> (\<exists>v. JSON_parse r = Some v \<and> v \<noteq> JNull))
        \<longrightarrow> (isLoggedIn st \<longleftrightarrow> fst (getCurrentUser st) \<noteq> None))
   \<and> ((\<exists>r. getItem st ''user'' = Some r \<and> r \<noteq> [] \<and> JSON_parse r = None)
        \<longrightarrow> isLoggedIn st \<and> fst (getCurrentUser st) = None
            \<and> \<not> isLoggedIn (snd (getCurrentUser st)))"
proof (cases "getItem st ''user''")
  case None
  then show ?thesis
    by (simp add: isLoggedIn_def getCurrentUser_def truthy_def)
next
  case (Some r)
  show ?thesis
  proof (cases "r = []")
    case True
    with Some show ?thesis
      by (simp add: isLoggedIn_def getCurrentUser_def truthy_def)
  next
    case False
    with Some show ?thesis
      by (cases "JSON_parse r")
        (auto simp add: isLoggedIn_def getCurrentUser_def truthy_def or_else_def
          getItem_def removeItem_def)
  qed
qed

theorem isLoggedIn_agrees_on_readable_records_witness:
  "isLoggedIn (login (userData ''mock-1'' ''Bo'' ''mock-token-k3'' ''abc'' None []) Map.empty)
   \<and> fst (getCurrentUser (login (userData ''mock-1'' ''Bo'' ''mock-token-k3'' ''abc'' None [])
        Map.empty)) \<noteq> None"
proof -
  let ?u = "userData ''mock-1'' ''Bo'' ''mock-token-k3'' ''abc'' None []"
  let ?st = "login ?u Map.empty"
  have rec: "getItem ?st ''user'' = Some (JSON_stringify ?u)"
    by (simp add: login_def getItem_def setItem_def removeItem_def)
  have nn: "?u \<noteq> JNull" by (simp add: userData_def)
  have readable: "\<forall>r. getItem ?st ''user'' = Some r \<and> r \<noteq> []
      \<longrightarrow> (\<exists>v. JSON_parse r = Some v \<and> v \<noteq> JNull)"
    using nn by (simp add: rec JSON_parse_userData)
  have stored: "\<exists>r. getItem ?st ''user'' = Some r \<and> r \<noteq> []"
    by (simp add: rec stringify_userData_nonempty)
  from isLoggedIn_agrees_on_readable_records [of ?st] readable stored
  show ?thesis by blast
qed

section \<open>The extractor: branch selection, failure, and the four shapes\<close>

lemma str_includes_sublist: "str_includes s p \<longleftrightarrow> sublist p s"
  by (induction s) (auto simp add: sublist_Cons_right)

lemma str_includes_appendI: "str_includes (a @ p @ b) p"
  by (simp add: str_includes_sublist)

lemma str_includes_Cons: "str_includes cs p \<Longrightarrow> str_includes (c # cs) p"
  by simp

lemma str_includes_key_of_delimited:
  assumes "str_includes url (d # k)"
  shows "str_includes url k"
proof -
  from assms obtain ps ss where "url = ps @ (d # k) @ ss"
    by (auto simp add: str_includes_sublist sublist_def)
  then have "url = (ps @ [d]) @ k @ ss" by simp
  then show ?thesis
    unfolding str_includes_sublist sublist_def by blast
qed

lemma idKey_nonempty: "idKey \<noteq> []"
  by (simp add: idKey_def)







subsection \<open>No step throws\<close>

lemma splitOn_nonempty: "sep \<noteq> [] \<Longrightarrow> splitOn sep s \<noteq> []"
proof (induction sep s rule: splitOn.induct)
  case (1 sep s)
  then show ?case
    by (subst splitOn.simps) (auto split: list.splits)
qed

lemma splitOn_two_pieces:
  "sep \<noteq> [] \<Longrightarrow> str_includes s sep \<Longrightarrow> 2 \<le> length (splitOn sep s)"
proof (induction sep s rule: splitOn.induct)
  case (1 sep s)
  show ?case
  proof (cases "prefix sep s")
    case True
    have "splitOn sep s = [] # splitOn sep (drop (length sep) s)"
      using True "1.prems"(1) by (subst splitOn.simps) auto
    moreover have "splitOn sep (drop (length sep) s) \<noteq> []"
      using "1.prems"(1) by (rule splitOn_nonempty)
    ultimately show ?thesis by (cases "splitOn sep (drop (length sep) s)") auto
  next
    case False
    with "1.prems" obtain c cs where s: "s = c # cs" and inc: "str_includes cs sep"
      by (cases s) auto
    have "2 \<le> length (splitOn sep (tl s))"
      using "1.IH"(2) "1.prems"(1) False s inc by simp
    then show ?thesis
      using False "1.prems"(1) s
      by (subst splitOn.simps) (auto split: list.splits)
  qed
qed

lemma element_Some: "i < length xs \<Longrightarrow> element xs i = Some (xs ! i)"
  by (induction xs i rule: element.induct) auto

lemma branchParams_never_throws:
  assumes "branchOf url = Some b"
  shows "\<exists>params. branchParams b url = Inr params"
proof (cases b)
  case EmbeddedSlash
  with assms have "str_includes url (CHR ''/'' # idKey)"
    by (auto simp add: branchOf_def split: if_splits)
  then have "2 \<le> length (splitOn (CHR ''/'' # idKey) url)"
    by (intro splitOn_two_pieces) simp_all
  then have "element (splitOn (CHR ''/'' # idKey) url) 1 \<noteq> None"
    by (simp add: element_Some)
  then show ?thesis
    using EmbeddedSlash by (auto simp add: branchParams_def)
qed (auto simp add: branchParams_def Let_def split: option.splits)

lemma identityFrom_cases:
  "identityFrom params = MissingGoogleId \<or>
   (\<exists>g n e p. g \<noteq> [] \<and> identityFrom params = Identity g n e p)"
  by (auto simp add: identityFrom_def truthy_def or_else_def Let_def split: option.splits)

text \<open>
  Claim C4.  No step of the extraction throws, whatever the URL; a URL without the key
  gives "not found"; an identity that is returned has a non-empty \<^verbatim>\<open>google_id\<close>; and
  parameters whose \<^verbatim>\<open>google_id\<close> is missing or empty give "not found" whatever other
  fields they hold.
\<close>

theorem extract_never_throws:
  "extractLoginData url \<noteq> Thrown err
   \<and> (\<not> str_includes url idKey \<longrightarrow> extractIdentity url = None)
   \<and> (extractIdentity url = Some (googleId, name, email, picture) \<longrightarrow> googleId \<noteq> [])
   \<and> (\<forall>b params. branchOf url = Some b \<and> branchParams b url = Inr params
          \<and> \<not> truthy (params_get params ''google_id'')
        \<longrightarrow> extractLoginData url = MissingGoogleId \<and> extractIdentity url = None)"
proof -
  have a: "extractLoginData url \<noteq> Thrown err"
  proof (cases "branchOf url")
    case None
    then show ?thesis by (simp add: extractLoginData_def)
  next
    case (Some b)
    from branchParams_never_throws [OF Some] obtain params where "branchParams b url = Inr params" ..
    then show ?thesis
      using Some identityFrom_cases [of params] by (auto simp add: extractLoginData_def)
  qed
  have b: "\<not> str_includes url idKey \<longrightarrow> extractIdentity url = None"
    by (simp add: extractIdentity_def extractLoginData_def branchOf_def)
  have c: "extractIdentity url = Some (googleId, name, email, picture) \<longrightarrow> googleId \<noteq> []"
  proof (cases "branchOf url")
    case None
    then show ?thesis by (simp add: extractIdentity_def extractLoginData_def)
  next
    case (Some b)
    from branchParams_never_throws [OF Some] obtain params where "branchParams b url = Inr params" ..
    then show ?thesis
      using Some identityFrom_cases [of params]
      by (auto simp add: extractIdentity_def extractLoginData_def)
  qed
  have d: "\<forall>b params. branchOf url = Some b \<and> branchParams b url = Inr params
          \<and> \<not> truthy (params_get params ''google_id'')
        \<longrightarrow> extractLoginData url = MissingGoogleId \<and> extractIdentity url = None"
    by (auto simp add: extractIdentity_def extractLoginData_def identityFrom_def)
  show ?thesis using a b c d by blast
qed


theorem extract_never_throws_witness:
  "extractLoginData ''http://h/p?google_id=&name=Bo'' = MissingGoogleId
   \<and> extractIdentity ''http://h/p?google_id=&name=Bo'' = None
   \<and> params_get (URLSearchParams (location_search ''http://h/p?google_id=&name=Bo'')) ''name''
       = Some ''Bo''"
proof -
  have h1: "branchOf ''http://h/p?google_id=&name=Bo'' = Some QueryString" by code_simp
  have h2: "branchParams QueryString ''http://h/p?google_id=&name=Bo''
      = Inr (URLSearchParams (location_search ''http://h/p?google_id=&name=Bo''))"
    by (simp add: branchParams_def)
  have h3: "\<not> truthy (params_get (URLSearchParams (location_search ''http://h/p?google_id=&name=Bo''))
      ''google_id'')"
    by code_simp
  have h4: "params_get (URLSearchParams (location_search ''http://h/p?google_id=&name=Bo'')) ''name''
       = Some ''Bo''"
    by code_simp
  from extract_never_throws [of "''http://h/p?google_id=&name=Bo''" TypeError] h1 h2 h3 h4
  show ?thesis by blast
qed

subsection \<open>The four shapes of the redirect\<close>

lemma str_includes_hd_mem: "str_includes s (c # k) \<Longrightarrow> c \<in> set s"
  by (auto simp add: str_includes_sublist sublist_def)

lemma prefix_through_foreign:
  assumes "prefix p (xs @ y # ys)" "y \<notin> set p"
  shows "prefix p xs"
proof -
  from assms(1) consider "prefix p xs" | us where "p = xs @ us" "prefix us (y # ys)"
    by (auto simp add: prefix_append)
  then show ?thesis
  proof cases
    case 1
    then show ?thesis .
  next
    case 2
    with assms(2) show ?thesis by (cases us) auto
  qed
qed

lemma idKey_last: "last idKey = CHR ''=''" "CHR ''='' \<notin> set (butlast idKey)"
  by (simp_all add: idKey_def)

lemma key_border:
  assumes "prefix idKey (t @ idKey @ rest)"
  shows "t = [] \<or> prefix idKey t"
proof (rule ccontr)
  assume neg: "\<not> (t = [] \<or> prefix idKey t)"
  with assms obtain us where us: "idKey = t @ us" "prefix us (idKey @ rest)"
    by (auto simp add: prefix_append)
  have ne: "us \<noteq> []" using us(1) neg by auto
  have "length idKey = length (t @ us)" using us(1) by simp
  then have "length idKey = length t + length us" by simp
  moreover have "0 < length t" using neg by simp
  ultimately have short: "length us < length idKey" by linarith
  from us(2) obtain w where w: "idKey @ rest = us @ w" by (auto simp add: prefix_def)
  have "take (length us) (idKey @ rest) = us" unfolding w by simp
  moreover have "take (length us) (idKey @ rest) = take (length us) (butlast idKey)"
    using short by (simp add: take_butlast)
  moreover have "set (take (length us) (butlast idKey)) \<subseteq> set (butlast idKey)"
    by (rule set_take_subset)
  ultimately have sub: "set us \<subseteq> set (butlast idKey)" by simp
  have "last (t @ us) = last us" using ne by simp
  then have "last us = CHR ''=''" using us(1) idKey_last(1) by simp
  moreover have "last us \<in> set us" using ne by (rule last_in_set)
  ultimately show False using sub idKey_last(2) by auto
qed


lemma firstAt_Cons: "firstAt sep (c # cs) rest \<Longrightarrow> firstAt sep cs rest"
  unfolding firstAt_def by (metis append_Cons)

lemma firstAt_hd: "firstAt sep (c # cs) rest \<Longrightarrow> \<not> prefix sep ((c # cs) @ sep @ rest)"
  unfolding firstAt_def by (metis append_Nil list.distinct(1))

lemma firstAt_key:
  assumes "\<not> str_includes base idKey"
  shows "firstAt idKey base rest"
  unfolding firstAt_def
proof (intro allI impI)
  fix a b
  assume ab: "base = a @ b \<and> b \<noteq> []"
  show "\<not> prefix idKey (b @ idKey @ rest)"
  proof
    assume "prefix idKey (b @ idKey @ rest)"
    with key_border ab have "prefix idKey b" by blast
    then obtain z where "b = idKey @ z" by (auto simp add: prefix_def)
    with ab have "base = a @ idKey @ z" by simp
    with assms show False by (simp add: str_includes_sublist)
  qed
qed

lemma firstAt_delimited_key:
  assumes "\<not> str_includes base idKey" "d \<notin> set idKey"
  shows "firstAt (d # idKey) base rest"
  unfolding firstAt_def
proof (intro allI impI)
  fix a b
  assume ab: "base = a @ b \<and> b \<noteq> []"
  then obtain c b' where b: "b = c # b'" by (cases b) auto
  show "\<not> prefix (d # idKey) (b @ (d # idKey) @ rest)"
  proof
    assume "prefix (d # idKey) (b @ (d # idKey) @ rest)"
    then have "prefix (d # idKey) (c # (b' @ d # idKey @ rest))"
      unfolding b by (simp only: append_Cons)
    then have "prefix idKey (b' @ d # idKey @ rest)" unfolding Cons_prefix_Cons by (rule conjunct2)
    from prefix_through_foreign [OF this assms(2)] obtain z where "b' = idKey @ z"
      by (auto simp add: prefix_def)
    with ab b have "base = (a @ [c]) @ idKey @ z" by simp
    then have "sublist idKey base" unfolding sublist_def by blast
    with assms(1) show False by (simp add: str_includes_sublist)
  qed
qed

lemma splitOn_first:
  assumes "sep \<noteq> []" "firstAt sep base rest"
  shows "splitOn sep (base @ sep @ rest) = base # splitOn sep rest"
  using assms(2)
proof (induction base)
  case Nil
  show ?case using assms(1) by (subst splitOn.simps) simp
next
  case (Cons c cs)
  have np: "\<not> prefix sep ((c # cs) @ sep @ rest)" using Cons.prems by (rule firstAt_hd)
  have IH: "splitOn sep (cs @ sep @ rest) = cs # splitOn sep rest"
    using Cons.IH firstAt_Cons [OF Cons.prems] by simp
  show ?case
    using np assms(1) IH by (subst splitOn.simps) simp
qed

lemma indexOf_first:
  assumes "p \<noteq> []" "firstAt p base rest"
  shows "indexOf (base @ p @ rest) p = Some (length base)"
  using assms(2)
proof (induction base)
  case Nil
  show ?case using assms(1) by (cases p) simp_all
next
  case (Cons c cs)
  have np: "\<not> prefix p ((c # cs) @ p @ rest)" using Cons.prems by (rule firstAt_hd)
  have IH: "indexOf (cs @ p @ rest) p = Some (length cs)"
    using Cons.IH firstAt_Cons [OF Cons.prems] by simp
  show ?case using np IH by simp
qed

lemma splitOn_absent:
  assumes "sep \<noteq> []" "\<not> str_includes s sep"
  shows "splitOn sep s = [s]"
  using assms(2)
proof (induction s)
  case Nil
  show ?case using assms(1) by (subst splitOn.simps) simp
next
  case (Cons c cs)
  then have "\<not> prefix sep (c # cs)" "splitOn sep cs = [cs]" by auto
  then show ?case using assms(1) by (subst splitOn.simps) simp
qed

lemma indexOf_char_None: "c \<notin> set s \<Longrightarrow> indexOf s [c] = None"
  by (induction s) auto


lemma firstAt_char:
  assumes "d \<notin> set base"
  shows "firstAt [d] base rest"
  unfolding firstAt_def
proof (intro allI impI)
  fix a b
  assume ab: "base = a @ b \<and> b \<noteq> []"
  then obtain c b' where b: "b = c # b'" by (cases b) auto
  with ab assms have "c \<noteq> d" by auto
  then show "\<not> prefix [d] (b @ [d] @ rest)" unfolding b by simp
qed

lemma not_includes_without_hd: "c \<notin> set s \<Longrightarrow> \<not> str_includes s (c # k)"
  using str_includes_hd_mem by blast

lemma idKey_chars:
  "CHR ''?'' \<notin> set idKey" "CHR ''#'' \<notin> set idKey" "CHR ''/'' \<notin> set idKey"
  "\<forall>ch \<in> set illegalChars. ch \<notin> set idKey" "\<not> prefix ''?'' (idKey @ rest)"
  by (simp_all add: idKey_def illegalChars_def)

lemma allowed_not_delimiter:
  "\<not> allowedChar CHR ''?''" "\<not> allowedChar CHR ''#''" "\<not> allowedChar CHR ''/''"
  by (simp_all add: allowedChar_def isWordChar_def isWhiteSpace_def isDigit_def)

lemma URLSearchParams_question:
  "\<not> prefix ''?'' x \<Longrightarrow> URLSearchParams (CHR ''?'' # x) = URLSearchParams x"
  by (simp add: URLSearchParams_def)

lemma query_shape:
  assumes "CHR ''?'' \<notin> set base" "CHR ''#'' \<notin> set base" "CHR ''#'' \<notin> set rest"
  shows "extractLoginData (base @ CHR ''?'' # idKey @ rest) = identityFrom (URLSearchParams (idKey @ rest))"
proof -
  let ?url = "base @ CHR ''?'' # idKey @ rest"
  have "str_includes (base @ (CHR ''?'' # idKey) @ rest) (CHR ''?'' # idKey)"
    by (rule str_includes_appendI)
  then have inc: "str_includes ?url (CHR ''?'' # idKey)" by simp
  have br: "branchOf ?url = Some QueryString"
    using inc str_includes_key_of_delimited [OF inc] by (simp add: branchOf_def)
  have "\<forall>c \<in> set ?url. c \<noteq> CHR ''#''"
    using assms idKey_chars(2) by auto
  then have tw: "takeWhile (\<lambda>c. c \<noteq> CHR ''#'') ?url = ?url"
    by (simp only: takeWhile_eq_all_conv)
  have "\<forall>x \<in> set base. x \<noteq> CHR ''?''" using assms(1) by auto
  then have dw: "dropWhile (\<lambda>c. c \<noteq> CHR ''?'') ?url = CHR ''?'' # idKey @ rest"
    by (simp add: dropWhile_append2)
  have search: "location_search ?url = CHR ''?'' # idKey @ rest"
    unfolding location_search_def tw dw using idKey_nonempty by (cases idKey) simp_all
  show ?thesis
    by (simp add: extractLoginData_def br branchParams_def search
        URLSearchParams_question idKey_chars(5))
qed

lemma hash_shape:
  assumes "CHR ''?'' \<notin> set base" "CHR ''#'' \<notin> set base"
    and "CHR ''?'' \<notin> set rest" "CHR ''#'' \<notin> set rest"
  shows "extractLoginData (base @ CHR ''#'' # idKey @ rest) = identityFrom (URLSearchParams (idKey @ rest))"
proof -
  let ?url = "base @ CHR ''#'' # idKey @ rest"
  have "str_includes (base @ (CHR ''#'' # idKey) @ rest) (CHR ''#'' # idKey)"
    by (rule str_includes_appendI)
  then have inc: "str_includes ?url (CHR ''#'' # idKey)" by simp
  have noq: "\<not> str_includes ?url (CHR ''?'' # idKey)"
    using assms idKey_chars(1) by (intro not_includes_without_hd) simp
  have br: "branchOf ?url = Some HashFragment"
    using inc noq str_includes_key_of_delimited [OF inc] by (simp add: branchOf_def)
  have "splitOn ''#'' (base @ ''#'' @ (idKey @ rest)) = base # splitOn ''#'' (idKey @ rest)"
    using firstAt_char [OF assms(2)] by (intro splitOn_first) simp_all
  moreover have "splitOn ''#'' (idKey @ rest) = [idKey @ rest]"
    using assms(4) idKey_chars(2) by (intro splitOn_absent not_includes_without_hd) simp_all
  ultimately have "splitOn ''#'' ?url = [base, idKey @ rest]" by simp
  then show ?thesis
    by (simp add: extractLoginData_def br branchParams_def)
qed

lemma slash_shape:
  assumes "\<not> str_includes base idKey" "CHR ''?'' \<notin> set base" "CHR ''#'' \<notin> set base"
    and "\<forall>c \<in> set rest. allowedChar c"
  shows "extractLoginData (base @ CHR ''/'' # idKey @ rest) = identityFrom (URLSearchParams (idKey @ rest))"
proof -
  let ?url = "base @ CHR ''/'' # idKey @ rest"
  have r: "CHR ''?'' \<notin> set rest" "CHR ''#'' \<notin> set rest" "CHR ''/'' \<notin> set rest"
    using assms(4) allowed_not_delimiter by auto
  have "str_includes (base @ (CHR ''/'' # idKey) @ rest) (CHR ''/'' # idKey)"
    by (rule str_includes_appendI)
  then have inc: "str_includes ?url (CHR ''/'' # idKey)" by simp
  have noq: "\<not> str_includes ?url (CHR ''?'' # idKey)"
    using assms r idKey_chars(1) by (intro not_includes_without_hd) simp
  have noh: "\<not> str_includes ?url (CHR ''#'' # idKey)"
    using assms r idKey_chars(2) by (intro not_includes_without_hd) simp
  have br: "branchOf ?url = Some EmbeddedSlash"
    using inc noq noh str_includes_key_of_delimited [OF inc] by (simp add: branchOf_def)
  have "splitOn (CHR ''/'' # idKey) (base @ (CHR ''/'' # idKey) @ rest)
          = base # splitOn (CHR ''/'' # idKey) rest"
    using firstAt_delimited_key [OF assms(1) idKey_chars(3)] by (intro splitOn_first) simp_all
  moreover have "splitOn (CHR ''/'' # idKey) rest = [rest]"
    using r(3) by (intro splitOn_absent not_includes_without_hd) simp_all
  ultimately have sp: "splitOn (CHR ''/'' # idKey) ?url = [base, rest]" by simp
  have keep: "filter allowedChar rest = rest" using assms(4) by simp
  show ?thesis
    by (simp add: extractLoginData_def br branchParams_def sp keep)
qed




lemma scanEnd_clean:
  assumes "\<forall>ch \<in> set illegalChars. ch \<notin> set (drop start url)"
  shows "scanEnd url start = length url"
proof -
  have none: "\<forall>ch \<in> set illegalChars. indexOfFrom url [ch] start = None"
    using assms by (simp add: indexOfFrom_def indexOf_char_None)
  have "foldl (\<lambda>endIndex ch.
             case indexOfFrom url [ch] start of
               None \<Rightarrow> endIndex
             | Some charIndex \<Rightarrow> if charIndex < endIndex then charIndex else endIndex) e cs = e"
    if "\<forall>ch \<in> set cs. indexOfFrom url [ch] start = None" for e cs
    using that by (induction cs arbitrary: e) simp_all
  from this [OF none] show ?thesis by (simp add: scanEnd_def)
qed

lemma no_slash_key:
  assumes "\<not> str_includes base idKey" "\<not> suffix ''/'' base" "CHR ''/'' \<notin> set rest"
  shows "\<not> str_includes (base @ idKey @ rest) (CHR ''/'' # idKey)"
proof
  assume "str_includes (base @ idKey @ rest) (CHR ''/'' # idKey)"
  then obtain ps ss where "base @ idKey @ rest = ps @ (CHR ''/'' # idKey) @ ss"
    unfolding str_includes_sublist sublist_def by blast
  then have eq: "base @ (idKey @ rest) = ps @ (CHR ''/'' # idKey @ ss)" by simp
  from append_eq_append_conv2 [THEN iffD1, OF eq] obtain us where
    "base = ps @ us \<and> us @ (idKey @ rest) = CHR ''/'' # idKey @ ss
     \<or> base @ us = ps \<and> idKey @ rest = us @ (CHR ''/'' # idKey @ ss)" ..
  then show False
  proof
    assume inside: "base = ps @ us \<and> us @ (idKey @ rest) = CHR ''/'' # idKey @ ss"
    show False
    proof (cases us)
      case Nil
      with inside have "idKey @ rest = CHR ''/'' # idKey @ ss" by simp
      from arg_cong [OF this, of set] have "CHR ''/'' \<in> set (idKey @ rest)" by simp
      with assms(3) idKey_chars(3) show False by simp
    next
      case (Cons u us')
      with inside have u: "u = CHR ''/''" and rest': "us' @ idKey @ rest = idKey @ ss"
        by simp_all
      have "prefix idKey (idKey @ ss)" by simp
      then have "prefix idKey (us' @ idKey @ rest)" unfolding rest' .
      from key_border [OF this] show False
      proof
        assume "us' = []"
        with inside Cons u have "base = ps @ ''/''" by simp
        with assms(2) show False by (simp add: suffix_def)
      next
        assume "prefix idKey us'"
        then obtain z where "us' = idKey @ z" unfolding prefix_def ..
        with inside Cons have "base = (ps @ [u]) @ idKey @ z" by simp
        then have "sublist idKey base" unfolding sublist_def by blast
        with assms(1) show False by (simp add: str_includes_sublist)
      qed
    qed
  next
    assume after: "base @ us = ps \<and> idKey @ rest = us @ (CHR ''/'' # idKey @ ss)"
    then have "idKey @ rest = us @ (CHR ''/'' # idKey @ ss)" ..
    from arg_cong [OF this, of set] have "CHR ''/'' \<in> set (idKey @ rest)" by simp
    with assms(3) idKey_chars(3) show False by simp
  qed
qed

lemma other_shape:
  assumes "\<not> str_includes base idKey" "CHR ''?'' \<notin> set base" "CHR ''#'' \<notin> set base"
    and "\<not> suffix ''/'' base"
    and "\<forall>c \<in> set rest. allowedChar c \<and> c \<notin> set illegalChars"
  shows "extractLoginData (base @ idKey @ rest) = identityFrom (URLSearchParams (idKey @ rest))"
proof -
  let ?url = "base @ idKey @ rest"
  have r: "CHR ''?'' \<notin> set rest" "CHR ''#'' \<notin> set rest" "CHR ''/'' \<notin> set rest"
    using assms(5) allowed_not_delimiter by auto
  have inc: "str_includes ?url idKey" by (rule str_includes_appendI)
  have noq: "\<not> str_includes ?url (CHR ''?'' # idKey)"
    using assms r idKey_chars(1) by (intro not_includes_without_hd) simp
  have noh: "\<not> str_includes ?url (CHR ''#'' # idKey)"
    using assms r idKey_chars(2) by (intro not_includes_without_hd) simp
  have nos: "\<not> str_includes ?url (CHR ''/'' # idKey)"
    using assms(1,4) r(3) by (rule no_slash_key)
  have br: "branchOf ?url = Some EmbeddedOther"
    using inc noq noh nos by (simp add: branchOf_def)
  have idx: "indexOf ?url idKey = Some (length base)"
    using idKey_nonempty firstAt_key [OF assms(1)] by (rule indexOf_first)
  have "\<forall>ch \<in> set illegalChars. ch \<notin> set (drop (length base) ?url)"
    using assms(5) idKey_chars(4) by auto
  then have scan: "scanEnd ?url (length base) = length ?url" by (rule scanEnd_clean)
  have sub: "substring ?url (length base) (length ?url) = idKey @ rest"
    by (simp add: substring_def)
  show ?thesis
    by (simp add: extractLoginData_def br branchParams_def idx scan sub del: length_append)
qed

text \<open>
  Claim C1, as amended.  Let the parameter content after the key consist of characters
  that line 337 keeps and line 347 does not stop at (word characters, \<^verbatim>\<open>= & % @ . -\<close> and
  white space other than the space), and let the text before the parameters hold no
  \<^verbatim>\<open>?\<close>, no \<^verbatim>\<open>#\<close> and no occurrence of the key.  Then the query-string, fragment,
  slash-embedded and delimiter-less shapes give the same identity: the one read from the
  parameter list itself.  (Where the text before the parameters ends in \<^verbatim>\<open>/\<close>, the
  delimiter-less shape is a slash-embedded one and is read by that branch.)
\<close>

theorem four_shapes_agree:
  assumes "\<not> str_includes base idKey" and "CHR ''?'' \<notin> set base" and "CHR ''#'' \<notin> set base"
    and "\<forall>c \<in> set rest. allowedChar c \<and> c \<notin> set illegalChars"
  shows "extractIdentity (base @ ''?'' @ idKey @ rest) = extractIdentity (base @ idKey @ rest)
       \<and> extractIdentity (base @ ''#'' @ idKey @ rest) = extractIdentity (base @ idKey @ rest)
       \<and> extractIdentity (base @ ''/'' @ idKey @ rest) = extractIdentity (base @ idKey @ rest)
       \<and> extractLoginData (base @ idKey @ rest) = identityFrom (URLSearchParams (idKey @ rest))"
proof -
  have r: "CHR ''?'' \<notin> set rest" "CHR ''#'' \<notin> set rest" "\<forall>c \<in> set rest. allowedChar c"
    using assms(4) allowed_not_delimiter by auto
  have q: "extractLoginData (base @ ''?'' @ idKey @ rest) = identityFrom (URLSearchParams (idKey @ rest))"
    using query_shape [OF assms(2,3) r(2)] by simp
  have h: "extractLoginData (base @ ''#'' @ idKey @ rest) = identityFrom (URLSearchParams (idKey @ rest))"
    using hash_shape [OF assms(2,3) r(1,2)] by simp
  have s: "extractLoginData (base @ ''/'' @ idKey @ rest) = identityFrom (URLSearchParams (idKey @ rest))"
    using slash_shape [OF assms(1,2,3) r(3)] by simp
  have d: "extractLoginData (base @ idKey @ rest) = identityFrom (URLSearchParams (idKey @ rest))"
  proof (cases "suffix ''/'' base")
    case True
    then obtain front where front: "base = front @ ''/''" unfolding suffix_def ..
    have "\<not> sublist idKey front"
    proof
      assume "sublist idKey front"
      then obtain ps ss where "front = ps @ idKey @ ss" unfolding sublist_def by blast
      then have "base = ps @ idKey @ (ss @ ''/'')" using front by simp
      then have "sublist idKey base" unfolding sublist_def by blast
      with assms(1) show False by (simp add: str_includes_sublist)
    qed
    then have f1: "\<not> str_includes front idKey" by (simp add: str_includes_sublist)
    have f2: "CHR ''?'' \<notin> set front" "CHR ''#'' \<notin> set front"
      using assms(2,3) front by simp_all
    show ?thesis
      using slash_shape [OF f1 f2 r(3)] unfolding front by simp
  next
    case False
    with assms show ?thesis by (intro other_shape)
  qed
  show ?thesis
    unfolding extractIdentity_def q h s d by simp
qed

theorem four_shapes_agree_witness:
  "extractIdentity (''https://qhdsalsm.com/'' @ ''?'' @ idKey @ ''abc&name=Bo'')
     = extractIdentity (''https://qhdsalsm.com/'' @ idKey @ ''abc&name=Bo'')
   \<and> extractIdentity (''https://qhdsalsm.com/'' @ ''#'' @ idKey @ ''abc&name=Bo'')
     = extractIdentity (''https://qhdsalsm.com/'' @ idKey @ ''abc&name=Bo'')
   \<and> extractIdentity (''https://qhdsalsm.com/'' @ ''/'' @ idKey @ ''abc&name=Bo'')
     = extractIdentity (''https://qhdsalsm.com/'' @ idKey @ ''abc&name=Bo'')
   \<and> extractLoginData (''https://qhdsalsm.com/'' @ idKey @ ''abc&name=Bo'')
     = Identity ''abc'' (Some ''Bo'') None None"
proof -
  have h1: "\<not> str_includes ''https://qhdsalsm.com/'' idKey" by code_simp
  have h2: "CHR ''?'' \<notin> set ''https://qhdsalsm.com/''" by simp
  have h3: "CHR ''#'' \<notin> set ''https://qhdsalsm.com/''" by simp
  have h4: "\<forall>c \<in> set ''abc&name=Bo''. allowedChar c \<and> c \<notin> set illegalChars"
    by (simp add: allowedChar_def isWordChar_def isDigit_def isWhiteSpace_def illegalChars_def)
  have v: "identityFrom (URLSearchParams (idKey @ ''abc&name=Bo'')) = Identity ''abc'' (Some ''Bo'') None None"
    by code_simp
  from four_shapes_agree [OF h1 h2 h3 h4] show ?thesis
    unfolding v .
qed

text \<open>
  Claim C1 as stated speaks of every parameter content.  A \<^verbatim>\<open>+\<close> (an encoded space) is
  outside the allow-list of the slash branch and is deleted there; an apostrophe ends the
  slice of the delimiter-less branch.
\<close>

theorem shapes_disagree_counterexample:
  "extractIdentity ''http://h/p?google_id=abc&name=Bo+Smith''
     = Some (''abc'', Some ''Bo Smith'', None, None)
   \<and> extractIdentity ''http://h/p/google_id=abc&name=Bo+Smith''
     = Some (''abc'', Some ''BoSmith'', None, None)
   \<and> extractIdentity (''http://h/p#google_id=abc&name=O'' @ [CHR 0x27] @ ''Hara'')
     = Some (''abc'', Some (''O'' @ [CHR 0x27] @ ''Hara''), None, None)
   \<and> extractIdentity (''http://h/pgoogle_id=abc&name=O'' @ [CHR 0x27] @ ''Hara'')
     = Some (''abc'', Some ''O'', None, None)"
  by code_simp

section \<open>The orchestrator: fallback synthesis and failed exchanges\<close>

lemma JSON_stringify_userData_nonempty:
  "JSON_stringify (userData a b c d e f) \<noteq> []"
  by (simp add: userData_def)

lemma mockGoogleLogin_allowed:
  assumes "isAllowedDomain hostname" "googleId \<noteq> []"
  shows "mockGoogleLogin hostname now rnd (Some googleId) name email picture st
           = (True, login (mockUserData now rnd googleId name email picture) st)"
  using assms by (simp add: mockGoogleLogin_def truthy_def or_else_def login_def)

lemma mockGoogleLogin_refused:
  "\<not> isAllowedDomain hostname \<Longrightarrow>
   mockGoogleLogin hostname now rnd googleId name email picture st = (False, st)"
  by (simp add: mockGoogleLogin_def)

lemma isLoggedIn_login_mock:
  "isLoggedIn (login (mockUserData now rnd googleId name email picture) st)"
  by (simp add: isLoggedIn_def login_def getItem_def setItem_def removeItem_def truthy_def
      mockUserData_def JSON_stringify_userData_nonempty)

text \<open>
  Claim C3, as amended.  For an identity with a \<^verbatim>\<open>google_id\<close>: on the four designated
  hosts no exchange is made and the synthesized Session is persisted; on every other host
  a failed exchange (rejected fetch, status outside 200-299, empty or unparsable body, no
  token) reaches the \<^verbatim>\<open>catch\<close> handler, whose \<^verbatim>\<open>mockGoogleLogin\<close> refuses the host, so
  the storage is left as it was, no Session is persisted, and the failure is shown.
\<close>

theorem resolve_fallback_only_on_designated_hosts:
  assumes "googleId \<noteq> []"
  shows "(isAllowedDomain hostname \<longrightarrow>
            resolve hostname r now rnd googleId name email picture st
              = (SignedIn, login (mockUserData now rnd googleId name email picture) st)
            \<and> isLoggedIn (snd (resolve hostname r now rnd googleId name email picture st)))
       \<and> (\<not> isAllowedDomain hostname \<and> exchangeData r = Inl err \<longrightarrow>
            resolve hostname r now rnd googleId name email picture st = (LoginFailed err, st))
       \<and> exchangeData TransportError = Inl FetchRejected
       \<and> (\<not> (200 \<le> status \<and> status \<le> 299) \<longrightarrow>
            exchangeData (Response status body) = Inl (BadStatus status))
       \<and> (200 \<le> status \<and> status \<le> 299 \<and> trim body = [] \<longrightarrow>
            exchangeData (Response status body) = Inl EmptyResponse)
       \<and> (200 \<le> status \<and> status \<le> 299 \<and> trim body \<noteq> [] \<and> JSON_parse body = None \<longrightarrow>
            exchangeData (Response status body) = Inl InvalidJson)
       \<and> (200 \<le> status \<and> status \<le> 299 \<and> trim body \<noteq> [] \<and> JSON_parse body = Some data
            \<and> \<not> truthyJson (getProp data ''token'') \<longrightarrow>
            (\<exists>e. exchangeData (Response status body) = Inl e))"
proof -
  have a: "isAllowedDomain hostname \<longrightarrow>
            resolve hostname r now rnd googleId name email picture st
              = (SignedIn, login (mockUserData now rnd googleId name email picture) st)"
  proof
    assume h: "isAllowedDomain hostname"
    then have "hostname = ''localhost'' \<or> hostname = ''127.0.0.1''
        \<or> hostname = ''qhdsalsm.com'' \<or> hostname = ''www.qhdsalsm.com''"
      by (simp add: isAllowedDomain_def)
    then show "resolve hostname r now rnd googleId name email picture st
              = (SignedIn, login (mockUserData now rnd googleId name email picture) st)"
      unfolding resolve_def mockGoogleLogin_allowed [OF h assms] by simp
  qed
  have b: "\<not> isAllowedDomain hostname \<and> exchangeData r = Inl err \<longrightarrow>
            resolve hostname r now rnd googleId name email picture st = (LoginFailed err, st)"
  proof
    assume h: "\<not> isAllowedDomain hostname \<and> exchangeData r = Inl err"
    then have "\<not> (hostname = ''localhost'' \<or> hostname = ''127.0.0.1''
        \<or> hostname = ''qhdsalsm.com'' \<or> hostname = ''www.qhdsalsm.com'')"
      by (simp add: isAllowedDomain_def)
    then show "resolve hostname r now rnd googleId name email picture st = (LoginFailed err, st)"
      using h unfolding resolve_def by (simp add: mockGoogleLogin_refused)
  qed
  have c: "exchangeData TransportError = Inl FetchRejected"
    "\<not> (200 \<le> status \<and> status \<le> 299) \<longrightarrow>
            exchangeData (Response status body) = Inl (BadStatus status)"
    "200 \<le> status \<and> status \<le> 299 \<and> trim body = [] \<longrightarrow>
            exchangeData (Response status body) = Inl EmptyResponse"
    "200 \<le> status \<and> status \<le> 299 \<and> trim body \<noteq> [] \<and> JSON_parse body = None \<longrightarrow>
            exchangeData (Response status body) = Inl InvalidJson"
    "200 \<le> status \<and> status \<le> 299 \<and> trim body \<noteq> [] \<and> JSON_parse body = Some data
            \<and> \<not> truthyJson (getProp data ''token'') \<longrightarrow>
            (\<exists>e. exchangeData (Response status body) = Inl e)"
    by (simp_all add: exchangeData_def)
  show ?thesis
    using a b c isLoggedIn_login_mock [of now rnd googleId name email picture st] by simp
qed

theorem resolve_fallback_only_on_designated_hosts_witness:
  "resolve ''example.com'' (Response 500 ''busy'') 17 ''k3'' ''g1'' None None None Map.empty
     = (LoginFailed (BadStatus 500), Map.empty)
   \<and> fst (resolve ''localhost'' (Response 500 ''busy'') 17 ''k3'' ''g1'' None None None Map.empty)
     = SignedIn"
proof -
  have h: "''g1'' \<noteq> []" by simp
  have n: "\<not> isAllowedDomain ''example.com''" "isAllowedDomain ''localhost''"
    by (simp_all add: isAllowedDomain_def)
  have s: "\<not> (200 \<le> (500 :: nat) \<and> (500 :: nat) \<le> 299)" by simp
  from resolve_fallback_only_on_designated_hosts [OF h, where hostname = "''example.com''"
      and r = "Response 500 ''busy''" and err = "BadStatus 500" and now = 17 and rnd = "''k3''"
      and name = None and email = None and picture = None and st = Map.empty
      and status = 500 and body = "''busy''"]
    resolve_fallback_only_on_designated_hosts [OF h, where hostname = "''localhost''"
      and r = "Response 500 ''busy''" and now = 17 and rnd = "''k3''"
      and name = None and email = None and picture = None and st = Map.empty]
    n s
  show ?thesis by simp
qed

text \<open>
  Claim C3 as stated promises a persisted Session after a failed exchange on every host.
  On \<^verbatim>\<open>example.com\<close> a rejected fetch ends with the failure shown and no Session.
\<close>

theorem failed_exchange_leaves_no_session_counterexample:
  "resolve ''example.com'' TransportError 17 ''k3'' ''g1'' None None None Map.empty
     = (LoginFailed FetchRejected, Map.empty)
   \<and> \<not> isLoggedIn (snd (resolve ''example.com'' TransportError 17 ''k3'' ''g1'' None None None
         Map.empty))"
  by (simp add: resolve_def exchangeData_def mockGoogleLogin_def isAllowedDomain_def
      isLoggedIn_def getItem_def truthy_def)

lemma mockUserData_fields:
  "mockUserData now rnd googleId name email picture
     = userData (''mock-'' @ toString (Num now))
         (if truthy name then or_else name [] else if truthy email then or_else email []
          else ''Local User'')
         (''mock-token-'' @ rnd) googleId
         (Some (if truthy picture then or_else picture []
                else generatedAvatar (if truthy name then or_else name [] else ''User'')))
         (or_else email [])"
  by (auto simp add: mockUserData_def truthy_def or_else_def split: option.splits)

text \<open>
  Claim C7.  The synthesized Session has \<^verbatim>\<open>username\<close> = name, else email, else
  \<^verbatim>\<open>'Local User'\<close>; \<^verbatim>\<open>userId\<close> and \<^verbatim>\<open>token\<close> are made from the clock and from
  \<^verbatim>\<open>Math.random\<close>; \<^verbatim>\<open>picture\<close> is the one provided, else the generated avatar.  The claim
  keys that avatar by the Session's username; the code keys it by \<^verbatim>\<open>name || 'User'\<close>.  With
  no name and the email \<^verbatim>\<open>a@b.c\<close> the username is \<^verbatim>\<open>a@b.c\<close>, the avatar is the one of
  \<^verbatim>\<open>User\<close>, and the avatar of the username would be another URL.
\<close>

theorem mock_avatar_keyed_by_name_not_username:
  "mockUserData 17 ''k3'' ''g1'' None (Some ''a@b.c'') None
     = userData ''mock-17'' ''a@b.c'' ''mock-token-k3'' ''g1''
         (Some ''https://ui-avatars.com/api/?name=User&background=random'') ''a@b.c''
   \<and> generatedAvatar ''a@b.c'' = ''https://ui-avatars.com/api/?name=a%40b.c&background=random''"
  by code_simp

end
